theory Spec2Isabelle
  imports Complex_Main "HOL-Library.Word" "HOL-Library.Log_Nat"
begin

section \<open>Data model of libmkc.c\<close>

text \<open>
  The controller of \<^verbatim>\<open>src/libmkc/libmkc.c\<close> drives one keyboard through a transport
  (the functions \<^verbatim>\<open>libmk_create_handle\<close>, \<^verbatim>\<open>libmk_enable_control\<close>,
  \<^verbatim>\<open>libmk_disable_control\<close>, \<^verbatim>\<open>libmk_send_control_packet\<close> and
  \<^verbatim>\<open>libmk_set_all_led_color\<close>, which the file calls and does not define).
  The header \<^verbatim>\<open>libmkc.h\<close> is not part of the sources, so the enumerations below list
  the members the code names, and the two array bounds \<^verbatim>\<open>LIBMK_MAX_ROWS\<close> and
  \<^verbatim>\<open>LIBMK_MAX_COLS\<close> are parameters \<open>R\<close> and \<open>C\<close> of every function that uses them.
\<close>

text \<open>
  \<^verbatim>\<open>LibMK_Result\<close>: the code names \<^verbatim>\<open>LIBMK_SUCCESS\<close> and
  \<^verbatim>\<open>LIBMK_ERR_STILL_ACTIVE\<close> and only ever compares a result with
  \<^verbatim>\<open>LIBMK_SUCCESS\<close>; every other code the transport can return is \<open>LIBMK_ERR n\<close>.
\<close>

datatype LibMK_Result = LIBMK_SUCCESS | LIBMK_ERR_STILL_ACTIVE | LIBMK_ERR nat

text \<open>
  Modelled from the spec: the enumeration \<^verbatim>\<open>LibMK_Controller_State\<close> is declared in
  \<^verbatim>\<open>libmkc.h\<close>, which is missing. The code names \<^verbatim>\<open>LIBMK_STATE_ACTIVE\<close> and
  \<^verbatim>\<open>LIBMK_STATE_JOIN_ERR\<close>; the third member is the state that the specification
  calls Inactive.
\<close>

datatype LibMK_Controller_State =
  LIBMK_STATE_INACTIVE | LIBMK_STATE_ACTIVE | LIBMK_STATE_JOIN_ERR

type_synonym addr = nat
type_synonym LibMK_Device = nat
type_synonym LibMK_Model = nat
type_synonym LibMK_Handle = nat

text \<open>
  \<^verbatim>\<open>LibMK_Instruction\<close>: a node of the singly linked queue. A pointer is an
  \<open>addr option\<close>, \<open>None\<close> being \<^verbatim>\<open>NULL\<close>; \<open>colors\<close> is the pointer to the
  malloc'ed per-key buffer together with the bytes it points to. The fields \<^verbatim>\<open>next\<close>
  and \<^verbatim>\<open>id\<close> are written \<open>instr_next\<close> and \<open>instr_id\<close>.
\<close>

record LibMK_Instruction =
  instr_next :: "addr option"
  instr_id :: "32 word"
  duration :: "32 word"
  color :: "8 word list"
  colors :: "8 word list option"

text \<open>
  \<^verbatim>\<open>LibMK_Controller\<close>. The four mutexes and the thread handle carry no data; locking
  and unlocking leave the other fields as they are.
\<close>

record LibMK_Controller =
  device :: LibMK_Handle
  state :: LibMK_Controller_State
  exit_flag :: bool
  instr :: "addr option"
  error :: LibMK_Result

subsection \<open>The transport\<close>

text \<open>
  The transport is outside the file. A call to it is logged with the result it gave, and
  the result may depend on everything the transport was asked before: \<open>reply tr evs c\<close>
  is the result of call \<open>c\<close> after the calls \<open>evs\<close>, and \<open>new_handle tr evs d\<close> is the
  handle that \<^verbatim>\<open>libmk_create_handle\<close> stores through its first argument.
\<close>

datatype call =
  Create_handle LibMK_Device
  | Enable_control LibMK_Handle
  | Disable_control LibMK_Handle
  | Send_control_packet LibMK_Handle
  | Set_all_led_color LibMK_Handle "8 word list"

type_synonym event = "call \<times> LibMK_Result"

record transport =
  new_handle :: "event list \<Rightarrow> LibMK_Device \<Rightarrow> LibMK_Handle"
  reply :: "event list \<Rightarrow> call \<Rightarrow> LibMK_Result"

text \<open>
  The memory the functions work on: the controller, the instructions that are allocated
  (a freed instruction is no longer in \<open>heap\<close>), and the log of transport calls.
\<close>

record world =
  controller :: LibMK_Controller
  heap :: "addr \<rightharpoonup> LibMK_Instruction"
  trace :: "event list"

definition transport_call :: "transport \<Rightarrow> call \<Rightarrow> world \<Rightarrow> LibMK_Result \<times> world" where
  "transport_call tr c w =
     (let r = reply tr (trace w) c in (r, w\<lparr>trace := trace w @ [(c, r)]\<rparr>))"

section \<open>Controller life cycle\<close>

text \<open>
  \<^verbatim>\<open>libmk_create_controller\<close> (lines 19-34). \<open>blk\<close> is the content of the block that
  \<^verbatim>\<open>malloc\<close> returns, which C leaves indeterminate; the function stores the handle in
  it and initialises the mutexes, nothing else. The result \<open>None\<close> is \<^verbatim>\<open>NULL\<close>.
\<close>

definition libmk_create_controller ::
  "transport \<Rightarrow> event list \<Rightarrow> LibMK_Controller \<Rightarrow> LibMK_Device \<Rightarrow> LibMK_Model
     \<Rightarrow> LibMK_Controller option \<times> event list" where
  "libmk_create_controller tr evs blk identifier model =
     (let r = reply tr evs (Create_handle identifier);
          dev = new_handle tr evs identifier;
          evs' = evs @ [(Create_handle identifier, r)]
      in if r \<noteq> LIBMK_SUCCESS then (None, evs')
         else (Some (blk\<lparr>device := dev\<rparr>), evs'))"

definition libmk_get_controller_state :: "LibMK_Controller \<Rightarrow> LibMK_Controller_State" where
  "libmk_get_controller_state c = state c"

definition libmk_get_controller_error :: "LibMK_Controller \<Rightarrow> LibMK_Result" where
  "libmk_get_controller_error c = error c"

text \<open>
  \<^verbatim>\<open>libmk_start_controller\<close> (lines 72-81): the second component of the result tells
  whether \<^verbatim>\<open>pthread_create\<close> was called for \<^verbatim>\<open>libmk_run_controller\<close>. The
  function itself writes no field of the controller.
\<close>

definition libmk_start_controller :: "transport \<Rightarrow> world \<Rightarrow> LibMK_Result \<times> bool \<times> world" where
  "libmk_start_controller tr w =
     (case transport_call tr (Enable_control (device (controller w))) w of
        (r, w') \<Rightarrow> if r \<noteq> LIBMK_SUCCESS then (r, False, w') else (LIBMK_SUCCESS, True, w'))"

text \<open>\<^verbatim>\<open>libmk_set_controller_error\<close> (lines 115-121).\<close>

definition libmk_set_controller_error :: "LibMK_Controller \<Rightarrow> LibMK_Result \<Rightarrow> LibMK_Controller" where
  "libmk_set_controller_error c e = (if error c = LIBMK_SUCCESS then c\<lparr>error := e\<rparr> else c)"

text \<open>\<^verbatim>\<open>libmk_stop_controller\<close> (lines 141-146).\<close>

definition libmk_stop_controller :: "LibMK_Controller \<Rightarrow> LibMK_Controller" where
  "libmk_stop_controller c = c\<lparr>exit_flag := True\<rparr>"

section \<open>Instructions\<close>

text \<open>
  \<^verbatim>\<open>libmk_create_instruction\<close> (lines 177-184): \<open>blk\<close> is the indeterminate content of
  the block that \<^verbatim>\<open>malloc\<close> returns; only \<^verbatim>\<open>duration\<close> and \<^verbatim>\<open>id\<close> are set.
\<close>

definition libmk_create_instruction :: "LibMK_Instruction \<Rightarrow> LibMK_Instruction" where
  "libmk_create_instruction blk = blk\<lparr>instr_id := 0, duration := 0\<rparr>"

text \<open>\<^verbatim>\<open>libmk_create_instruction_full\<close> (lines 187-193).\<close>

definition libmk_create_instruction_full :: "LibMK_Instruction \<Rightarrow> 8 word list \<Rightarrow> LibMK_Instruction" where
  "libmk_create_instruction_full blk c =
     fold (\<lambda>j i. i\<lparr>color := (color i)[j := c ! j]\<rparr>) [0..<3] (libmk_create_instruction blk)"

text \<open>
  The loop counters of the file are \<^verbatim>\<open>unsigned char\<close>: a loop
  \<^verbatim>\<open>for (unsigned char r = 0; r < N; r++)\<close> ends only when \<open>N \<le> 255\<close>, and the inner
  loop over the columns is entered only when there is a row.
\<close>

definition uchar_loops_end :: "nat \<Rightarrow> nat \<Rightarrow> bool" where
  "uchar_loops_end R C = (R = 0 \<or> (R \<le> 255 \<and> C \<le> 255))"

text \<open>
  An argument \<^verbatim>\<open>unsigned char c[R][C][3]\<close> is \<open>R * C * 3\<close> bytes in row-major order;
  \<open>grid_at C g row col j\<close> is \<^verbatim>\<open>c[row][col][j]\<close>.
\<close>

definition grid_at :: "nat \<Rightarrow> 8 word list \<Rightarrow> nat \<Rightarrow> nat \<Rightarrow> nat \<Rightarrow> 8 word" where
  "grid_at C g row col j = g ! ((row * C + col) * 3 + j)"

text \<open>
  \<^verbatim>\<open>libmk_create_instruction_all\<close> (lines 196-207). \<open>buf\<close> is the indeterminate content
  of the \<open>R * C * 3\<close> bytes that the second \<^verbatim>\<open>malloc\<close> returns. The three loops store
  \<^verbatim>\<open>c[row][col][j]\<close> at index \<^verbatim>\<open>row * LIBMK_MAX_COLS + j\<close> of the buffer, which lies
  inside it. The result is \<open>None\<close> when the loops do not end.
\<close>

definition fill_colors :: "nat \<Rightarrow> nat \<Rightarrow> 8 word list \<Rightarrow> 8 word list \<Rightarrow> 8 word list" where
  "fill_colors R C c buf =
     fold (\<lambda>row. fold (\<lambda>col. fold (\<lambda>j b. b[row * C + j := grid_at C c row col j]) [0..<3])
                    [0..<C])
          [0..<R] buf"

definition libmk_create_instruction_all ::
  "nat \<Rightarrow> nat \<Rightarrow> LibMK_Instruction \<Rightarrow> 8 word list \<Rightarrow> 8 word list \<Rightarrow> LibMK_Instruction option" where
  "libmk_create_instruction_all R C blk buf c =
     (if uchar_loops_end R C
      then Some ((libmk_create_instruction blk)\<lparr>colors := Some (fill_colors R C c buf)\<rparr>)
      else None)"

text \<open>
  \<^verbatim>\<open>libmk_free_instruction\<close> (lines 169-174): the instruction and its buffer leave the
  heap. \<open>None\<close>: the pointer is not an allocated instruction.
\<close>

definition libmk_free_instruction ::
  "(addr \<rightharpoonup> LibMK_Instruction) \<Rightarrow> addr \<Rightarrow> (addr \<rightharpoonup> LibMK_Instruction) option" where
  "libmk_free_instruction h i = (case h i of None \<Rightarrow> None | Some n \<Rightarrow> Some (h(i := None)))"

text \<open>
  \<^verbatim>\<open>libmk_exec_instruction\<close> (lines 124-138). In the last branch the local array is
  filled with the one color, \<^verbatim>\<open>colors[r][c][k] = i->color[k]\<close>, and handed to the
  transport. \<open>None\<close>: the pointer is not an allocated instruction, or the loops do not end.
\<close>

definition uniform_colors :: "nat \<Rightarrow> nat \<Rightarrow> 8 word list \<Rightarrow> 8 word list" where
  "uniform_colors R C col =
     concat (map (\<lambda>r. concat (map (\<lambda>c. map (\<lambda>k. col ! k) [0..<3]) [0..<C])) [0..<R])"

definition libmk_exec_instruction ::
  "nat \<Rightarrow> nat \<Rightarrow> transport \<Rightarrow> LibMK_Handle \<Rightarrow> addr option \<Rightarrow> world \<Rightarrow> (LibMK_Result \<times> world) option" where
  "libmk_exec_instruction R C tr h i w =
     (case i of
        None \<Rightarrow> Some (transport_call tr (Send_control_packet h) w)
      | Some a \<Rightarrow>
          (case heap w a of
             None \<Rightarrow> None
           | Some n \<Rightarrow>
               (case colors n of
                  Some buf \<Rightarrow> Some (transport_call tr (Set_all_led_color h buf) w)
                | None \<Rightarrow>
                    if uchar_loops_end R C
                    then Some (transport_call tr
                                 (Set_all_led_color h (uniform_colors R C (color n))) w)
                    else None)))"

section \<open>The instruction queue\<close>

text \<open>
  \<^verbatim>\<open>libmk_sched_instruction\<close> (lines 210-230). \<open>sched_walk\<close> is the \<^verbatim>\<open>while (true)\<close>
  loop that walks \<^verbatim>\<open>t\<close> to the node whose \<^verbatim>\<open>next\<close> is \<^verbatim>\<open>NULL\<close>, and
  \<open>link_tail\<close> the two assignments made there (lines 221-222). The result
  \<open>None\<close> stands for a call that does not return normally: the walk never finds a
  \<^verbatim>\<open>NULL\<close> link, or a pointer it follows is not an allocated instruction.
\<close>

definition link_tail ::
  "(addr \<rightharpoonup> LibMK_Instruction) \<Rightarrow> addr \<Rightarrow> addr \<Rightarrow> (addr \<rightharpoonup> LibMK_Instruction) option" where
  "link_tail h t i =
     (case h t of
        None \<Rightarrow> None
      | Some tn \<Rightarrow>
          (let h1 = h(t \<mapsto> tn\<lparr>instr_next := Some i\<rparr>)
           in case h1 i of
                None \<Rightarrow> None
              | Some n \<Rightarrow> Some (h1(i \<mapsto> n\<lparr>instr_id := instr_id tn + 1\<rparr>))))"

partial_function (option) sched_walk ::
  "(addr \<rightharpoonup> LibMK_Instruction) \<Rightarrow> addr \<Rightarrow> addr \<Rightarrow> (addr \<rightharpoonup> LibMK_Instruction) option" where
  "sched_walk h t i =
     (case h t of
        None \<Rightarrow> None
      | Some tn \<Rightarrow>
          (case instr_next tn of
             None \<Rightarrow> link_tail h t i
           | Some t' \<Rightarrow> sched_walk h t' i))"

definition libmk_sched_instruction :: "world \<Rightarrow> addr \<Rightarrow> (LibMK_Result \<times> world) option" where
  "libmk_sched_instruction w i =
     (case instr (controller w) of
        None \<Rightarrow>
          (case heap w i of
             None \<Rightarrow> None
           | Some n \<Rightarrow>
               Some (LIBMK_SUCCESS,
                     w\<lparr>controller := (controller w)\<lparr>instr := Some i\<rparr>,
                       heap := (heap w)(i \<mapsto> n\<lparr>instr_id := 1\<rparr>)\<rparr>))
      | Some t \<Rightarrow>
          (case sched_walk (heap w) t i of
             None \<Rightarrow> None
           | Some h' \<Rightarrow> Some (LIBMK_SUCCESS, w\<lparr>heap := h'\<rparr>)))"

text \<open>
  \<^verbatim>\<open>libmk_cancel_instruction\<close> (lines 233-253). \<open>cancel_scan\<close> is the
  \<^verbatim>\<open>while (curr != NULL)\<close> loop with its two cursors; it returns the head pointer and
  the heap as the loop leaves them.
\<close>

partial_function (option) cancel_scan ::
  "addr option \<Rightarrow> (addr \<rightharpoonup> LibMK_Instruction) \<Rightarrow> addr option \<Rightarrow> addr option \<Rightarrow> 32 word
     \<Rightarrow> (addr option \<times> (addr \<rightharpoonup> LibMK_Instruction)) option" where
  "cancel_scan head h prev cur ident =
     (case cur of
        None \<Rightarrow> Some (head, h)
      | Some a \<Rightarrow>
          (case h a of
             None \<Rightarrow> None
           | Some n \<Rightarrow>
               if instr_id n = ident
               then (case prev of
                       Some p \<Rightarrow>
                         (case h p of
                            None \<Rightarrow> None
                          | Some pn \<Rightarrow>
                              (case libmk_free_instruction
                                      (h(p \<mapsto> pn\<lparr>instr_next := instr_next n\<rparr>)) a of
                                 None \<Rightarrow> None
                               | Some h' \<Rightarrow> Some (head, h')))
                     | None \<Rightarrow>
                         (case libmk_free_instruction h a of
                            None \<Rightarrow> None
                          | Some h' \<Rightarrow> Some (instr_next n, h')))
               else cancel_scan head h (Some a) (instr_next n) ident))"

definition libmk_cancel_instruction :: "world \<Rightarrow> 32 word \<Rightarrow> (LibMK_Result \<times> world) option" where
  "libmk_cancel_instruction w ident =
     (case cancel_scan (instr (controller w)) (heap w) None (instr (controller w)) ident of
        None \<Rightarrow> None
      | Some (head, h') \<Rightarrow>
          Some (LIBMK_SUCCESS, w\<lparr>controller := (controller w)\<lparr>instr := head\<rparr>, heap := h'\<rparr>))"

text \<open>
  A queue is well formed when the \<^verbatim>\<open>next\<close> links lead from the head pointer through
  allocated instructions to \<^verbatim>\<open>NULL\<close>; \<open>queue h p as\<close> says that they do so through
  the addresses \<open>as\<close>, in this order.
\<close>

fun queue :: "(addr \<rightharpoonup> LibMK_Instruction) \<Rightarrow> addr option \<Rightarrow> addr list \<Rightarrow> bool" where
  "queue h p [] = (p = None)"
| "queue h p (a # as) =
     (p = Some a \<and> (case h a of None \<Rightarrow> False | Some n \<Rightarrow> queue h (instr_next n) as))"

definition id_of :: "(addr \<rightharpoonup> LibMK_Instruction) \<Rightarrow> addr \<Rightarrow> 32 word" where
  "id_of h a = (case h a of None \<Rightarrow> 0 | Some n \<Rightarrow> instr_id n)"

section \<open>The worker loop\<close>

text \<open>
  \<^verbatim>\<open>libmk_run_controller\<close> (lines 84-112) runs in a thread of its own while callers
  stop the controller, schedule and cancel instructions; it is modelled as the function
  of a controller that its signature declares. \<open>run_iteration\<close> is one pass
  through the body of its \<^verbatim>\<open>while (true)\<close> loop: \<open>Break\<close> is the \<^verbatim>\<open>break\<close>,
  \<open>Continue\<close> the next pass. \<open>None\<close>: a pointer that is read is not an allocated
  instruction.
\<close>

datatype 'a loop_step = Break 'a | Continue 'a

definition run_iteration :: "nat \<Rightarrow> nat \<Rightarrow> transport \<Rightarrow> world \<Rightarrow> world loop_step option" where
  "run_iteration R C tr w =
     (if exit_flag (controller w) then Some (Break w)
      else if instr (controller w) = None then Some (Continue w)
      else
        (case libmk_exec_instruction R C tr (device (controller w)) (instr (controller w)) w of
           None \<Rightarrow> None
         | Some (r, w1) \<Rightarrow>
             if r \<noteq> LIBMK_SUCCESS
             then Some (Break (w1\<lparr>controller := libmk_set_controller_error (controller w1) r\<rparr>))
             else
               (case instr (controller w1) of
                  None \<Rightarrow> None
                | Some old \<Rightarrow>
                    (case heap w1 old of
                       None \<Rightarrow> None
                     | Some n \<Rightarrow>
                         (case libmk_free_instruction (heap w1) old of
                            None \<Rightarrow> None
                          | Some h' \<Rightarrow>
                              Some (Continue
                                (w1\<lparr>controller := (controller w1)\<lparr>instr := instr_next n\<rparr>,
                                    heap := h'\<rparr>)))))))"

text \<open>
  What the other threads do while the worker runs: each entry of a schedule lists the
  calls that complete before the worker's next pass reads the exit flag.
\<close>

datatype caller_op = Stop_controller | Sched_instruction addr | Cancel_instruction "32 word"

fun caller_step :: "caller_op \<Rightarrow> world \<Rightarrow> world option" where
  "caller_step Stop_controller w = Some (w\<lparr>controller := libmk_stop_controller (controller w)\<rparr>)"
| "caller_step (Sched_instruction i) w = map_option snd (libmk_sched_instruction w i)"
| "caller_step (Cancel_instruction ident) w = map_option snd (libmk_cancel_instruction w ident)"

fun caller_steps :: "caller_op list \<Rightarrow> world \<Rightarrow> world option" where
  "caller_steps [] w = Some w"
| "caller_steps (x # xs) w =
     (case caller_step x w of None \<Rightarrow> None | Some w' \<Rightarrow> caller_steps xs w')"

text \<open>
  The loop, for at most \<open>n\<close> passes: \<open>None\<close> when it has not left the loop by then (an
  empty queue with the exit flag down spins for ever) or when a pass has no defined
  result. A schedule that has run out means that no caller does anything any more.
\<close>

fun run_loop ::
  "nat \<Rightarrow> nat \<Rightarrow> transport \<Rightarrow> nat \<Rightarrow> caller_op list list \<Rightarrow> world \<Rightarrow> world option" where
  "run_loop R C tr 0 sch w = None"
| "run_loop R C tr (Suc n) sch w =
     (case caller_steps (case sch of [] \<Rightarrow> [] | ops # _ \<Rightarrow> ops) w of
        None \<Rightarrow> None
      | Some w1 \<Rightarrow>
          (case run_iteration R C tr w1 of
             None \<Rightarrow> None
           | Some (Break w2) \<Rightarrow> Some w2
           | Some (Continue w2) \<Rightarrow> run_loop R C tr n (tl sch) w2))"

text \<open>The lines after the loop (108-111): control is handed back to the keyboard.\<close>

definition disable_after_loop :: "transport \<Rightarrow> world \<Rightarrow> world" where
  "disable_after_loop tr w =
     (case transport_call tr (Disable_control (device (controller w))) w of
        (r, w') \<Rightarrow>
          if r \<noteq> LIBMK_SUCCESS
          then w'\<lparr>controller := libmk_set_controller_error (controller w') r\<rparr>
          else w')"

definition libmk_run_controller ::
  "nat \<Rightarrow> nat \<Rightarrow> transport \<Rightarrow> nat \<Rightarrow> caller_op list list \<Rightarrow> world \<Rightarrow> world option" where
  "libmk_run_controller R C tr n sch w = map_option (disable_after_loop tr) (run_loop R C tr n sch w)"

section \<open>Joining\<close>

subsection \<open>Double precision\<close>

text \<open>
  The \<^verbatim>\<open>double\<close> values of \<^verbatim>\<open>libmk_join_controller\<close> are IEEE 754 binary64 values:
  a finite one is the rational number it denotes. \<open>to_double\<close> rounds a rational number
  to the nearest value with a significand of 53 bits, ties to the even significand, as
  the conversion of an integer and the division do. It does not bound the exponent: the
  numbers rounded here are differences of 64-bit clock values and their quotients by
  \<^verbatim>\<open>CLOCKS_PER_SEC\<close>, which are 0 or lie between a millionth and 2 to the power 64, far inside the
  range of the normal numbers.
\<close>

datatype c_double = Finite rat | Pos_infinity | Neg_infinity | Not_a_number

text \<open>Rounding to the nearest integer, ties to the even one.\<close>

definition rne :: "rat \<Rightarrow> int" where
  "rne y =
     (let f = \<lfloor>y\<rfloor>; r = y - of_int f
      in if r < 1 / 2 then f else if 1 / 2 < r then f + 1 else if even f then f else f + 1)"

text \<open>The exponent \<open>e\<close> with \<open>2 powi e \<le> x < 2 powi (e + 1)\<close>, for a positive \<open>x\<close>.\<close>

definition floor_log2 :: "rat \<Rightarrow> int" where
  "floor_log2 x =
     (case quotient_of x of
        (p, q) \<Rightarrow> let e = bitlen p - bitlen q in if 2 powi e \<le> x then e else e - 1)"

definition to_double :: "rat \<Rightarrow> rat" where
  "to_double x =
     (if x = 0 then 0
      else let u = 2 powi (floor_log2 \<bar>x\<bar> - 52)
           in sgn x * of_int (rne (\<bar>x\<bar> / u)) * u)"

text \<open>The comparison \<^verbatim>\<open>a > b\<close> of two doubles: false as soon as one of them is not a number.\<close>

fun double_gt :: "c_double \<Rightarrow> c_double \<Rightarrow> bool" where
  "double_gt (Finite a) (Finite b) = (b < a)"
| "double_gt (Finite a) Neg_infinity = True"
| "double_gt Pos_infinity (Finite b) = True"
| "double_gt Pos_infinity Neg_infinity = True"
| "double_gt _ _ = False"

subsection \<open>The polling loop\<close>

text \<open>
  \<^verbatim>\<open>libmk_join_controller\<close> (lines 149-166) polls. \<open>t\<close> is the value of
  \<^verbatim>\<open>clock()\<close> on entry; each poll reads the state of the controller as the other
  threads have left it by then and, when that is active, reads \<^verbatim>\<open>clock()\<close>: a poll is
  the pair of both. \<open>elapsed_since t now\<close> is line 161: the difference of the two clock
  values is converted to \<^verbatim>\<open>double\<close> and divided by \<^verbatim>\<open>CLOCKS_PER_SEC\<close>, which has
  the value that POSIX gives it. The result of the call is the value returned and the
  controller as the call leaves it; \<open>None\<close> means that the call is still polling after
  the last poll listed.
\<close>

definition CLOCKS_PER_SEC :: int where
  "CLOCKS_PER_SEC = 1000000"

definition elapsed_since :: "int \<Rightarrow> int \<Rightarrow> rat" where
  "elapsed_since t now =
     to_double (to_double (of_int (now - t)) / to_double (of_int CLOCKS_PER_SEC))"

fun join_loop ::
  "int \<Rightarrow> c_double \<Rightarrow> (LibMK_Controller \<times> int) list
     \<Rightarrow> (LibMK_Controller_State \<times> LibMK_Controller) option" where
  "join_loop t timeout [] = None"
| "join_loop t timeout ((c, now) # polls) =
     (let s = state c
      in if s \<noteq> LIBMK_STATE_ACTIVE then Some (s, c)
         else if double_gt (Finite (elapsed_since t now)) timeout
              then Some (LIBMK_STATE_JOIN_ERR, c)
              else join_loop t timeout polls)"

definition libmk_join_controller ::
  "int \<Rightarrow> (LibMK_Controller \<times> int) list \<Rightarrow> c_double
     \<Rightarrow> (LibMK_Controller_State \<times> LibMK_Controller) option" where
  "libmk_join_controller t polls timeout = join_loop t timeout polls"

section \<open>Notions used to state the properties\<close>

text \<open>The \<^verbatim>\<open>next\<close> link of an allocated instruction.\<close>

definition next_of :: "(addr \<rightharpoonup> LibMK_Instruction) \<Rightarrow> addr \<Rightarrow> addr option" where
  "next_of h a = (case h a of None \<Rightarrow> None | Some n \<Rightarrow> instr_next n)"

text \<open>
  What cancelling the instruction \<open>a\<close> of the queue \<open>xs @ a # ys\<close> must leave behind: the
  queue \<open>xs @ ys\<close>, \<open>a\<close> freed, the head pointer moved when \<open>a\<close> was the first
  instruction and the link of its predecessor moved otherwise, and nothing else touched.
\<close>

definition spliced_out ::
  "(addr \<rightharpoonup> LibMK_Instruction) \<Rightarrow> addr option \<Rightarrow> (addr \<rightharpoonup> LibMK_Instruction) \<Rightarrow> addr option
     \<Rightarrow> addr list \<Rightarrow> addr \<Rightarrow> addr list \<Rightarrow> bool" where
  "spliced_out h head h' head' xs a ys =
     (queue h' head' (xs @ ys) \<and> h' a = None \<and>
      (xs = [] \<longrightarrow> head' = next_of h a \<and> (\<forall>b. b \<noteq> a \<longrightarrow> h' b = h b)) \<and>
      (xs \<noteq> [] \<longrightarrow> head' = head \<and>
         next_of h' (last xs) = next_of h a \<and>
         id_of h' (last xs) = id_of h (last xs) \<and>
         (\<forall>b. b \<noteq> a \<and> b \<noteq> last xs \<longrightarrow> h' b = h b)))"

text \<open>
  The transport calls that execute an instruction, and the logged calls among them that
  failed.
\<close>

definition is_exec :: "call \<Rightarrow> bool" where
  "is_exec c = (case c of Send_control_packet h \<Rightarrow> True | Set_all_led_color h b \<Rightarrow> True | _ \<Rightarrow> False)"

definition exec_failure :: "event \<Rightarrow> bool" where
  "exec_failure ev = (is_exec (fst ev) \<and> snd ev \<noteq> LIBMK_SUCCESS)"

text \<open>
  \<open>worker_at R C tr k sch w\<close> is the memory in which the worker starts pass \<open>k\<close> of its
  loop (counted from 0), after the callers' operations of that slot: it is defined when
  the \<open>k\<close> passes before it all went on to the next pass.
\<close>

fun worker_at ::
  "nat \<Rightarrow> nat \<Rightarrow> transport \<Rightarrow> nat \<Rightarrow> caller_op list list \<Rightarrow> world \<Rightarrow> world option" where
  "worker_at R C tr 0 sch w = caller_steps (case sch of [] \<Rightarrow> [] | ops # _ \<Rightarrow> ops) w"
| "worker_at R C tr (Suc k) sch w =
     (case caller_steps (case sch of [] \<Rightarrow> [] | ops # _ \<Rightarrow> ops) w of
        None \<Rightarrow> None
      | Some w1 \<Rightarrow>
          (case run_iteration R C tr w1 of
             Some (Continue w2) \<Rightarrow> worker_at R C tr k (tl sch) w2
           | _ \<Rightarrow> None))"

text \<open>
  What the loop may have done between \<open>w\<close> and \<open>w'\<close>, having made the transport calls
  \<open>evs\<close>: either no execution failed and the error slot is as it was, or the last call
  is the one failed execution and the error slot took its code if it was free.
\<close>

definition loop_effect :: "world \<Rightarrow> world \<Rightarrow> event list \<Rightarrow> bool" where
  "loop_effect w w' evs =
     (device (controller w') = device (controller w) \<and> state (controller w') = state (controller w) \<and>
      trace w' = trace w @ evs \<and>
      (((\<forall>ev \<in> set evs. \<not> exec_failure ev) \<and> error (controller w') = error (controller w)) \<or>
       (\<exists>pre c e. evs = pre @ [(c, e)] \<and> (\<forall>ev \<in> set pre. \<not> exec_failure ev) \<and> is_exec c \<and>
          e \<noteq> LIBMK_SUCCESS \<and>
          error (controller w') = (if error (controller w) = LIBMK_SUCCESS then e else error (controller w)))))"



section \<open>Sample data\<close>

text \<open>
  Concrete transports, controllers and memories on which the functions are evaluated
  below; the keyboard layout used there has 7 rows and 24 columns.
\<close>

definition always_ok :: transport where
  "always_ok = \<lparr>new_handle = (\<lambda>evs d. d), reply = (\<lambda>evs c. LIBMK_SUCCESS)\<rparr>"

definition open_fails :: "LibMK_Result \<Rightarrow> transport" where
  "open_fails e = \<lparr>new_handle = (\<lambda>evs d. d),
                   reply = (\<lambda>evs c. case c of Create_handle d \<Rightarrow> e | _ \<Rightarrow> LIBMK_SUCCESS)\<rparr>"

text \<open>
  A transport that executes instructions while fewer than \<open>m\<close> calls are logged and fails
  them with \<open>e\<close> afterwards, and that answers \<open>r\<close> when control is handed back.
\<close>

definition fails_after :: "nat \<Rightarrow> LibMK_Result \<Rightarrow> LibMK_Result \<Rightarrow> transport" where
  "fails_after m e r =
     \<lparr>new_handle = (\<lambda>evs d. d),
      reply = (\<lambda>evs c. case c of
                 Send_control_packet h \<Rightarrow> if length evs < m then LIBMK_SUCCESS else e
               | Set_all_led_color h b \<Rightarrow> if length evs < m then LIBMK_SUCCESS else e
               | Disable_control h \<Rightarrow> r
               | _ \<Rightarrow> LIBMK_SUCCESS)\<rparr>"

definition blank_instruction :: LibMK_Instruction where
  "blank_instruction = \<lparr>instr_next = None, instr_id = 0, duration = 0, color = [0, 0, 0], colors = None\<rparr>"

definition idle_controller :: LibMK_Controller where
  "idle_controller = \<lparr>device = 1, state = LIBMK_STATE_INACTIVE, exit_flag = False, instr = None, error = LIBMK_SUCCESS\<rparr>"


text \<open>
  The double that the literal \<^verbatim>\<open>0.3\<close> denotes, which is a little less than 3/10, and
  the double that follows it.
\<close>

definition timeout_03 :: rat where
  "timeout_03 = 5404319552844595 / 18014398509481984"


text \<open>A controller whose state field holds the third value of the enumeration.\<close>

definition join_err_controller :: LibMK_Controller where
  "join_err_controller = idle_controller\<lparr>state := LIBMK_STATE_JOIN_ERR\<rparr>"

text \<open>A block of memory as \<^verbatim>\<open>malloc\<close> may return it, with earlier contents in it.\<close>

definition junk_controller :: LibMK_Controller where
  "junk_controller = \<lparr>device = 0, state = LIBMK_STATE_ACTIVE, exit_flag = True, instr = Some 7, error = LIBMK_ERR 3\<rparr>"

definition idle_world :: world where
  "idle_world = \<lparr>controller = idle_controller, heap = Map.empty, trace = []\<rparr>"

definition stopping_world :: world where
  "stopping_world =
     \<lparr>controller = idle_controller\<lparr>state := LIBMK_STATE_ACTIVE, exit_flag := True\<rparr>,
      heap = Map.empty, trace = []\<rparr>"

text \<open>
  Two instructions queued at the addresses 10 and 20 (one color for all keys, then a
  per-key buffer), and a third one at 30 that is not queued yet.
\<close>

definition two_queued :: world where
  "two_queued =
     \<lparr>controller = idle_controller\<lparr>instr := Some 10\<rparr>,
      heap = [10 \<mapsto> blank_instruction\<lparr>instr_next := Some 20, instr_id := 1, color := [255, 0, 0]\<rparr>,
              20 \<mapsto> blank_instruction\<lparr>instr_id := 2, colors := Some [1, 2, 3]\<rparr>,
              30 \<mapsto> blank_instruction],
      trace = []\<rparr>"

definition before_failure :: world where
  "before_failure =
     \<lparr>controller = idle_controller\<lparr>instr := Some 20\<rparr>,
      heap = (heap two_queued)(10 := None),
      trace = [(Set_all_led_color 1 (uniform_colors 7 24 [255, 0, 0]), LIBMK_SUCCESS)]\<rparr>"

definition after_failed_run :: world where
  "after_failed_run =
     \<lparr>controller = idle_controller\<lparr>instr := Some 20, error := LIBMK_ERR 5\<rparr>,
      heap = (heap two_queued)(10 := None),
      trace = [(Set_all_led_color 1 (uniform_colors 7 24 [255, 0, 0]), LIBMK_SUCCESS),
               (Set_all_led_color 1 [1, 2, 3], LIBMK_ERR 5),
               (Disable_control 1, LIBMK_ERR 6)]\<rparr>"

text \<open>A controller that kept the error of an earlier run, with one instruction queued.\<close>

definition errored_world :: world where
  "errored_world =
     \<lparr>controller = idle_controller\<lparr>instr := Some 20, error := LIBMK_ERR 9\<rparr>,
      heap = [20 \<mapsto> blank_instruction\<lparr>instr_id := 1, colors := Some [1, 2, 3]\<rparr>],
      trace = []\<rparr>"

text \<open>
  A grid of 7 * 24 * 3 bytes that is 0 except for the red byte of the key in row 0,
  column 0, which is 1, and the red byte of the key in row 0, column 23, which is 9.
\<close>

definition sample_grid :: "8 word list" where
  "sample_grid = 1 # replicate 68 0 @ 9 # replicate 434 0"

section \<open>Auxiliary lemmas\<close>

subsection \<open>Well-formed queues\<close>

lemma queue_unique: "queue h p as \<Longrightarrow> queue h p bs \<Longrightarrow> as = bs"
proof (induction as arbitrary: p bs)
  case Nil
  then show ?case by (cases bs) auto
next
  case (Cons a as)
  then show ?case by (cases bs) (auto split: option.splits)
qed

lemma queue_suffix: "queue h p (xs @ ys) \<Longrightarrow> ys \<noteq> [] \<Longrightarrow> queue h (Some (hd ys)) ys"
proof (induction xs arbitrary: p)
  case Nil
  then show ?case by (cases ys) auto
next
  case (Cons x xs)
  then show ?case by (auto split: option.splits)
qed

lemma queue_head_notin_tail: "queue h p (a # as) \<Longrightarrow> a \<notin> set as"
proof
  assume q: "queue h p (a # as)" and "a \<in> set as"
  then obtain xs ys where as: "as = xs @ a # ys" by (auto simp: in_set_conv_decomp)
  from q have "queue h p ((a # xs) @ (a # ys))" by (simp add: as)
  then have "queue h (Some (hd (a # ys))) (a # ys)" by (rule queue_suffix) simp
  then have 1: "queue h (Some a) (a # ys)" by simp
  from q have 2: "queue h (Some a) (a # as)" by simp
  from queue_unique[OF 1 2] show False by (simp add: as)
qed

lemma queue_tail: "queue h p (a # as) \<Longrightarrow> \<exists>n. h a = Some n \<and> queue h (instr_next n) as"
  by (auto split: option.splits)

lemma queue_distinct: "queue h p as \<Longrightarrow> distinct as"
proof (induction as arbitrary: p)
  case Nil
  then show ?case by simp
next
  case (Cons a as)
  from Cons.prems have "a \<notin> set as" by (rule queue_head_notin_tail)
  moreover from queue_tail[OF Cons.prems] obtain n where "h a = Some n" "queue h (instr_next n) as" by auto
  then have "distinct as" using Cons.IH by blast
  ultimately show ?case by simp
qed

lemma queue_upd_other: "a \<notin> set as \<Longrightarrow> queue (h(a := v)) p as = queue h p as"
  by (induction as arbitrary: p) (auto split: option.splits)

lemma sched_walk_tail:
  "queue h (Some t) as \<Longrightarrow> sched_walk h t i = link_tail h (last as) i"
proof (induction as arbitrary: t)
  case Nil
  then show ?case by simp
next
  case (Cons a as)
  then obtain n where n: "t = a" "h a = Some n" "queue h (instr_next n) as"
    by (auto split: option.splits)
  show ?case
  proof (cases as)
    case Nil
    with n show ?thesis by (subst sched_walk.simps) simp
  next
    case (Cons b bs)
    with n have nx: "instr_next n = Some b" by simp
    with n Cons.IH[of b] Cons show ?thesis by (subst sched_walk.simps) simp
  qed
qed

lemma queue_last:
  "queue h p as \<Longrightarrow> as \<noteq> [] \<Longrightarrow> \<exists>tn. h (last as) = Some tn \<and> instr_next tn = None"
proof (induction as arbitrary: p)
  case Nil
  then show ?case by simp
next
  case (Cons a as)
  then show ?case by (cases as) (auto split: option.splits)
qed

lemma queue_snoc:
  assumes "queue h p as" "as \<noteq> []" "i \<notin> set as" "h (last as) = Some tn" "instr_next ni = None"
  shows "queue (h(last as \<mapsto> tn\<lparr>instr_next := Some i\<rparr>, i \<mapsto> ni)) p (as @ [i])"
  using assms
proof (induction as arbitrary: p)
  case Nil
  then show ?case by simp
next
  case (Cons a as)
  from Cons.prems(1) have notin: "a \<notin> set as" by (rule queue_head_notin_tail)
  from Cons.prems(1) obtain n where n: "p = Some a" "h a = Some n" "queue h (instr_next n) as"
    by (auto split: option.splits)
  from Cons.prems(3) have ai: "a \<noteq> i" and i': "i \<notin> set as" by auto
  define H where "H = h(last (a # as) \<mapsto> tn\<lparr>instr_next := Some i\<rparr>, i \<mapsto> ni)"
  have Hi: "H i = Some ni" by (simp add: H_def)
  show ?case
  proof (cases "as = []")
    case True
    with Cons.prems(4) n have "tn = n" by simp
    with True ai have Ha: "H a = Some (n\<lparr>instr_next := Some i\<rparr>)" by (simp add: H_def)
    have "queue H p (a # [i])"
      using n(1) Ha Hi Cons.prems(5) by simp
    then show ?thesis by (simp only: H_def True append_Cons append_Nil)
  next
    case False
    from Cons.prems(4) False have l: "h (last as) = Some tn" by simp
    have "queue (h(last as \<mapsto> tn\<lparr>instr_next := Some i\<rparr>, i \<mapsto> ni)) (instr_next n) (as @ [i])"
      by (rule Cons.IH[OF n(3) False i' l Cons.prems(5)])
    with False have tl: "queue H (instr_next n) (as @ [i])" by (simp add: H_def)
    from False notin have "a \<noteq> last as" using last_in_set by metis
    with ai n(2) False have Ha: "H a = Some n" by (simp add: H_def)
    have "queue H p (a # (as @ [i]))"
      using n(1) Ha tl by simp
    then show ?thesis by (simp only: H_def append_Cons)
  qed
qed

subsection \<open>Cancelling\<close>

lemma free_allocated: "h a = Some n \<Longrightarrow> libmk_free_instruction h a = Some (h(a := None))"
  by (simp add: libmk_free_instruction_def)

lemma cancel_scan_absent:
  "queue h cur bs \<Longrightarrow> ident \<notin> id_of h ` set bs \<Longrightarrow> cancel_scan head h prev cur ident = Some (head, h)"
proof (induction bs arbitrary: prev cur)
  case Nil
  then show ?case by (subst cancel_scan.simps) simp
next
  case (Cons b bs)
  from Cons.prems(1) obtain n where n: "cur = Some b" "h b = Some n" "queue h (instr_next n) bs"
    by (auto split: option.splits)
  from Cons.prems(2) n have ne: "instr_id n \<noteq> ident" and rest: "ident \<notin> id_of h ` set bs"
    by (auto simp: id_of_def)
  have "cancel_scan head h (Some b) (instr_next n) ident = Some (head, h)"
    by (rule Cons.IH[OF n(3) rest])
  with n ne show ?case by (subst cancel_scan.simps) simp
qed

lemma cancel_scan_found:
  assumes "queue h cur (xs @ a # ys)" "ident \<notin> id_of h ` set xs" "h a = Some n" "instr_id n = ident"
  shows "cancel_scan head h prev cur ident =
     (case (if xs = [] then prev else Some (last xs)) of
        None \<Rightarrow> Some (instr_next n, h(a := None))
      | Some p \<Rightarrow>
          (case h p of
             None \<Rightarrow> None
           | Some pn \<Rightarrow> Some (head, (h(p \<mapsto> pn\<lparr>instr_next := instr_next n\<rparr>))(a := None))))"
  using assms
proof (induction xs arbitrary: prev cur)
  case Nil
  then have cur: "cur = Some a" by simp
  show ?case
  proof (cases prev)
    case None
    with cur Nil.prems(3,4) show ?thesis
      by (subst cancel_scan.simps) (simp add: free_allocated)
  next
    case (Some p)
    show ?thesis
    proof (cases "h p")
      case None
      with Some cur Nil.prems(3,4) show ?thesis by (subst cancel_scan.simps) simp
    next
      case (Some pn)
      have "libmk_free_instruction (h(p \<mapsto> pn\<lparr>instr_next := instr_next n\<rparr>)) a
              = Some ((h(p \<mapsto> pn\<lparr>instr_next := instr_next n\<rparr>))(a := None))"
        using Nil.prems(3) by (simp add: libmk_free_instruction_def)
      with Some \<open>prev = Some p\<close> cur Nil.prems(3,4) show ?thesis
        by (subst cancel_scan.simps) simp
    qed
  qed
next
  case (Cons x xs)
  from Cons.prems(1) obtain xn where xn: "cur = Some x" "h x = Some xn" "queue h (instr_next xn) (xs @ a # ys)"
    by (auto split: option.splits)
  from Cons.prems(2) xn have ne: "instr_id xn \<noteq> ident" and rest: "ident \<notin> id_of h ` set xs"
    by (auto simp: id_of_def)
  have step: "cancel_scan head h prev cur ident = cancel_scan head h (Some x) (instr_next xn) ident"
    using xn ne by (subst cancel_scan.simps) simp
  have "(if xs = [] then Some x else Some (last xs)) = Some (last (x # xs))" by simp
  with Cons.IH[OF xn(3) rest Cons.prems(3,4), of "Some x"] step show ?case by simp
qed

lemma queue_allocated: "queue h p as \<Longrightarrow> a \<in> set as \<Longrightarrow> \<exists>n. h a = Some n"
  by (induction as arbitrary: p) (auto split: option.splits)

lemma queue_splice:
  assumes "queue h p (xs @ a # ys)" "xs \<noteq> []" "h (last xs) = Some pn" "h a = Some n"
  shows "queue ((h(last xs \<mapsto> pn\<lparr>instr_next := instr_next n\<rparr>))(a := None)) p (xs @ ys)"
  using assms
proof (induction xs arbitrary: p)
  case Nil
  then show ?case by simp
next
  case (Cons x xs)
  from Cons.prems(1) have d: "distinct (x # xs @ a # ys)" using queue_distinct by fastforce
  from Cons.prems(1) obtain xn where xn: "p = Some x" "h x = Some xn" "queue h (instr_next xn) (xs @ a # ys)"
    by (auto split: option.splits)
  define H where "H = (h(last (x # xs) \<mapsto> pn\<lparr>instr_next := instr_next n\<rparr>))(a := None)"
  show ?case
  proof (cases "xs = []")
    case True
    with Cons.prems(3) xn have pn: "pn = xn" by simp
    from True xn(3) Cons.prems(4) have ys: "queue h (instr_next n) ys" by simp
    from d True have "x \<notin> set ys" "a \<notin> set ys" "x \<noteq> a" by auto
    then have "queue H (instr_next n) ys" and "H x = Some (xn\<lparr>instr_next := instr_next n\<rparr>)"
      using ys True pn by (simp_all add: H_def queue_upd_other)
    then have "queue H p (x # ys)" using xn(1) by simp
    then show ?thesis by (simp only: H_def True append_Cons append_Nil)
  next
    case False
    from Cons.prems(3) False have l: "h (last xs) = Some pn" by simp
    have "queue ((h(last xs \<mapsto> pn\<lparr>instr_next := instr_next n\<rparr>))(a := None)) (instr_next xn) (xs @ ys)"
      by (rule Cons.IH[OF xn(3) False l Cons.prems(4)])
    with False have tl: "queue H (instr_next xn) (xs @ ys)" by (simp add: H_def)
    from d False have "x \<noteq> last xs" "x \<noteq> a" using last_in_set by fastforce+
    with xn(2) False have "H x = Some xn" by (simp add: H_def)
    with tl xn(1) have "queue H p (x # (xs @ ys))" by simp
    then show ?thesis by (simp only: H_def append_Cons)
  qed
qed

lemma first_split_unique:
  "xs @ a # ys = xs' @ a' # ys' \<Longrightarrow> P a \<Longrightarrow> P a' \<Longrightarrow> \<forall>b \<in> set xs. \<not> P b \<Longrightarrow> \<forall>b \<in> set xs'. \<not> P b
     \<Longrightarrow> xs' = xs \<and> a' = a \<and> ys' = ys"
proof (induction xs arbitrary: xs')
  case Nil
  then show ?case by (cases xs') auto
next
  case (Cons x xs)
  then show ?case by (cases xs') auto
qed

lemma cancel_found_head:
  assumes q: "queue (heap w) (instr (controller w)) (a # ys)" and n: "heap w a = Some n"
     and idn: "instr_id n = ident"
  shows "libmk_cancel_instruction w ident =
        Some (LIBMK_SUCCESS, w\<lparr>controller := (controller w)\<lparr>instr := instr_next n\<rparr>,
                              heap := (heap w)(a := None)\<rparr>)"
    and "spliced_out (heap w) (instr (controller w)) ((heap w)(a := None)) (instr_next n) [] a ys"
proof -
  from q have q': "queue (heap w) (instr (controller w)) ([] @ a # ys)" by simp
  have "ident \<notin> id_of (heap w) ` set []" by simp
  note scan = cancel_scan_found[OF q' this n idn, of "instr (controller w)" None]
  then show "libmk_cancel_instruction w ident =
        Some (LIBMK_SUCCESS, w\<lparr>controller := (controller w)\<lparr>instr := instr_next n\<rparr>,
                              heap := (heap w)(a := None)\<rparr>)"
    by (simp add: libmk_cancel_instruction_def)
  from q n have "queue (heap w) (instr_next n) ys" by simp
  moreover from q have "a \<notin> set ys" by (rule queue_head_notin_tail)
  ultimately have "queue ((heap w)(a := None)) (instr_next n) ys" by (simp add: queue_upd_other)
  then show "spliced_out (heap w) (instr (controller w)) ((heap w)(a := None)) (instr_next n) [] a ys"
    using n by (simp add: spliced_out_def next_of_def)
qed

lemma cancel_found_inner:
  assumes q: "queue (heap w) (instr (controller w)) (xs @ a # ys)" and n: "heap w a = Some n"
     and idn: "instr_id n = ident" and xs: "ident \<notin> id_of (heap w) ` set xs" and ne: "xs \<noteq> []"
  shows "\<exists>h'. libmk_cancel_instruction w ident =
        Some (LIBMK_SUCCESS, w\<lparr>controller := (controller w)\<lparr>instr := instr (controller w)\<rparr>,
                              heap := h'\<rparr>) \<and>
        spliced_out (heap w) (instr (controller w)) h' (instr (controller w)) xs a ys"
proof -
  from ne have lin: "last xs \<in> set xs" by simp
  with q obtain pn where pn: "heap w (last xs) = Some pn"
    using queue_allocated[of "heap w" _ "xs @ a # ys" "last xs"] by auto
  define h' where "h' = ((heap w)(last xs \<mapsto> pn\<lparr>instr_next := instr_next n\<rparr>))(a := None)"
  note scan = cancel_scan_found[OF q xs n idn, of "instr (controller w)" None]
  with ne pn have res: "libmk_cancel_instruction w ident =
        Some (LIBMK_SUCCESS, w\<lparr>controller := (controller w)\<lparr>instr := instr (controller w)\<rparr>,
                              heap := h'\<rparr>)"
    by (simp add: libmk_cancel_instruction_def h'_def)
  have qa: "queue h' (instr (controller w)) (xs @ ys)"
    unfolding h'_def by (rule queue_splice[OF q ne pn n])
  from q have "distinct (xs @ a # ys)" by (rule queue_distinct)
  with lin have "last xs \<noteq> a" by auto
  with ne n pn have "spliced_out (heap w) (instr (controller w)) h' (instr (controller w)) xs a ys"
    unfolding spliced_out_def using qa by (simp add: next_of_def id_of_def h'_def)
  with res show ?thesis by blast
qed

subsection \<open>What a run of the worker changes\<close>

lemma transport_call_eq:
  "transport_call tr c w = (reply tr (trace w) c, w\<lparr>trace := trace w @ [(c, reply tr (trace w) c)]\<rparr>)"
  by (simp add: transport_call_def Let_def)

lemma sched_keeps:
  "libmk_sched_instruction w i = Some (r, w') \<Longrightarrow>
     trace w' = trace w \<and> error (controller w') = error (controller w) \<and>
     device (controller w') = device (controller w) \<and> state (controller w') = state (controller w)"
  by (auto simp: libmk_sched_instruction_def split: option.splits)

lemma cancel_keeps:
  "libmk_cancel_instruction w i = Some (r, w') \<Longrightarrow>
     trace w' = trace w \<and> error (controller w') = error (controller w) \<and>
     device (controller w') = device (controller w) \<and> state (controller w') = state (controller w)"
  by (auto simp: libmk_cancel_instruction_def split: option.splits prod.splits)

lemma caller_step_keeps:
  "caller_step x w = Some w' \<Longrightarrow>
     trace w' = trace w \<and> error (controller w') = error (controller w) \<and>
     device (controller w') = device (controller w) \<and> state (controller w') = state (controller w)"
proof (cases x)
  case Stop_controller
  then show "caller_step x w = Some w' \<Longrightarrow> ?thesis" by (auto simp: libmk_stop_controller_def)
next
  case (Sched_instruction i)
  then show "caller_step x w = Some w' \<Longrightarrow> ?thesis" using sched_keeps[of w i] by auto
next
  case (Cancel_instruction i)
  then show "caller_step x w = Some w' \<Longrightarrow> ?thesis" using cancel_keeps[of w i] by auto
qed

lemma caller_steps_keeps:
  "caller_steps xs w = Some w' \<Longrightarrow>
     trace w' = trace w \<and> error (controller w') = error (controller w) \<and>
     device (controller w') = device (controller w) \<and> state (controller w') = state (controller w)"
proof (induction xs arbitrary: w)
  case Nil
  then show ?case by simp
next
  case (Cons x xs)
  then obtain w1 where 1: "caller_step x w = Some w1" and 2: "caller_steps xs w1 = Some w'"
    by (auto split: option.splits)
  from caller_step_keeps[OF 1] Cons.IH[OF 2] show ?case by simp
qed

lemma is_exec_simps:
  "is_exec (Send_control_packet h)" "is_exec (Set_all_led_color h b)"
  "\<not> is_exec (Create_handle d)" "\<not> is_exec (Enable_control h)" "\<not> is_exec (Disable_control h)"
  by (simp_all add: is_exec_def)

lemma exec_result:
  assumes "libmk_exec_instruction R C tr h i w = Some (e, w1)"
  shows "\<exists>c. is_exec c \<and> e = reply tr (trace w) c \<and> w1 = w\<lparr>trace := trace w @ [(c, e)]\<rparr>"
proof (cases i)
  case None
  with assms have "e = reply tr (trace w) (Send_control_packet h) \<and>
      w1 = w\<lparr>trace := trace w @ [(Send_control_packet h, e)]\<rparr>"
    by (auto simp: libmk_exec_instruction_def transport_call_eq)
  then show ?thesis using is_exec_simps(1) by blast
next
  case (Some a)
  with assms obtain n where n: "heap w a = Some n"
    by (auto simp: libmk_exec_instruction_def split: option.splits)
  define b where "b = (case colors n of Some buf \<Rightarrow> buf | None \<Rightarrow> uniform_colors R C (color n))"
  from assms Some n have "e = reply tr (trace w) (Set_all_led_color h b) \<and>
      w1 = w\<lparr>trace := trace w @ [(Set_all_led_color h b, e)]\<rparr>"
    by (auto simp: libmk_exec_instruction_def transport_call_eq b_def split: option.splits if_splits)
  then show ?thesis using is_exec_simps(2) by blast
qed

lemma set_error_fields:
  "device (libmk_set_controller_error c e) = device c"
  "state (libmk_set_controller_error c e) = state c"
  "instr (libmk_set_controller_error c e) = instr c"
  "exit_flag (libmk_set_controller_error c e) = exit_flag c"
  "error (libmk_set_controller_error c e) = (if error c = LIBMK_SUCCESS then e else error c)"
  by (simp_all add: libmk_set_controller_error_def)

lemma iteration_continue:
  assumes "run_iteration R C tr w = Some (Continue w')"
  shows "device (controller w') = device (controller w) \<and> state (controller w') = state (controller w) \<and>
         error (controller w') = error (controller w) \<and>
         (\<exists>evs. trace w' = trace w @ evs \<and> (\<forall>ev \<in> set evs. \<not> exec_failure ev))"
proof (cases "instr (controller w) = None")
  case True
  with assms show ?thesis by (auto simp: run_iteration_def split: if_splits)
next
  case False
  with assms obtain e w1 where ex: "libmk_exec_instruction R C tr (device (controller w)) (instr (controller w)) w = Some (e, w1)"
    by (auto simp: run_iteration_def split: if_splits option.splits)
  from exec_result[OF ex] obtain c where c: "w1 = w\<lparr>trace := trace w @ [(c, e)]\<rparr>" by blast
  from assms False ex have e: "e = LIBMK_SUCCESS"
    by (auto simp: run_iteration_def split: if_splits option.splits)
  from assms False ex e obtain nx h' where "w' = w1\<lparr>controller := (controller w1)\<lparr>instr := nx\<rparr>, heap := h'\<rparr>"
    by (auto simp: run_iteration_def split: if_splits option.splits)
  with c e show ?thesis by (simp add: exec_failure_def)
qed

lemma iteration_break:
  assumes "run_iteration R C tr w = Some (Break w')"
  shows "device (controller w') = device (controller w) \<and> state (controller w') = state (controller w) \<and>
         heap w' = heap w \<and> instr (controller w') = instr (controller w) \<and>
         ((trace w' = trace w \<and> error (controller w') = error (controller w) \<and> exit_flag (controller w)) \<or>
          (\<exists>c e. is_exec c \<and> e \<noteq> LIBMK_SUCCESS \<and> trace w' = trace w @ [(c, e)] \<and>
                 error (controller w') = (if error (controller w) = LIBMK_SUCCESS then e else error (controller w))))"
proof (cases "exit_flag (controller w)")
  case True
  with assms show ?thesis by (simp add: run_iteration_def)
next
  case False
  with assms have ne: "instr (controller w) \<noteq> None"
    by (auto simp: run_iteration_def split: if_splits)
  with assms False obtain e w1 where ex: "libmk_exec_instruction R C tr (device (controller w)) (instr (controller w)) w = Some (e, w1)"
    by (auto simp: run_iteration_def split: if_splits option.splits)
  from exec_result[OF ex] obtain c where c: "is_exec c" "w1 = w\<lparr>trace := trace w @ [(c, e)]\<rparr>" by blast
  from assms False ne ex have e: "e \<noteq> LIBMK_SUCCESS" and w': "w' = w1\<lparr>controller := libmk_set_controller_error (controller w1) e\<rparr>"
    by (auto simp: run_iteration_def split: if_splits option.splits)
  from c e w' show ?thesis by (auto simp: set_error_fields)
qed

lemma loop_effect_failI:
  assumes "device (controller w') = device (controller w)" "state (controller w') = state (controller w)"
    "trace w' = trace w @ pre @ [(c, e)]" "\<forall>ev \<in> set pre. \<not> exec_failure ev" "is_exec c"
    "e \<noteq> LIBMK_SUCCESS"
    "error (controller w') = (if error (controller w) = LIBMK_SUCCESS then e else error (controller w))"
  shows "loop_effect w w' (pre @ [(c, e)])"
  unfolding loop_effect_def using assms by blast

lemma loop_effect_after:
  assumes "device (controller w1) = device (controller w)" "state (controller w1) = state (controller w)"
    "error (controller w1) = error (controller w)" "trace w1 = trace w @ evs1"
    "\<forall>ev \<in> set evs1. \<not> exec_failure ev" "loop_effect w1 w' evs2"
  shows "loop_effect w w' (evs1 @ evs2)"
proof -
  from assms(6) consider
      (ok) "\<forall>ev \<in> set evs2. \<not> exec_failure ev" "error (controller w') = error (controller w1)"
    | (fail) pre c e where "evs2 = pre @ [(c, e)]" "\<forall>ev \<in> set pre. \<not> exec_failure ev" "is_exec c"
          "e \<noteq> LIBMK_SUCCESS"
          "error (controller w') = (if error (controller w1) = LIBMK_SUCCESS then e else error (controller w1))"
    unfolding loop_effect_def by blast
  then show ?thesis
  proof cases
    case ok
    with assms show ?thesis unfolding loop_effect_def by auto
  next
    case fail
    have "evs1 @ evs2 = (evs1 @ pre) @ [(c, e)]" using fail(1) by simp
    moreover have "\<forall>ev \<in> set (evs1 @ pre). \<not> exec_failure ev" using fail(2) assms(5) by auto
    ultimately have "\<exists>pre c e. evs1 @ evs2 = pre @ [(c, e)] \<and> (\<forall>ev \<in> set pre. \<not> exec_failure ev) \<and> is_exec c \<and>
          e \<noteq> LIBMK_SUCCESS \<and>
          error (controller w') = (if error (controller w) = LIBMK_SUCCESS then e else error (controller w))"
      using fail(3,4,5) assms(3) by metis
    moreover from assms have "device (controller w') = device (controller w)"
      "state (controller w') = state (controller w)" "trace w' = trace w @ evs1 @ evs2"
      unfolding loop_effect_def by auto
    ultimately show ?thesis unfolding loop_effect_def by blast
  qed
qed

lemma run_loop_effect:
  "run_loop R C tr n sch w = Some w' \<Longrightarrow> \<exists>evs. loop_effect w w' evs"
proof (induction n arbitrary: sch w)
  case 0
  then show ?case by simp
next
  case (Suc n)
  from Suc.prems obtain w1 where cs: "caller_steps (case sch of [] \<Rightarrow> [] | ops # _ \<Rightarrow> ops) w = Some w1"
    by (auto split: option.splits)
  note k = caller_steps_keeps[OF cs]
  from Suc.prems cs obtain st where it: "run_iteration R C tr w1 = Some st"
    by (auto split: option.splits)
  show ?case
  proof (cases st)
    case (Break w2)
    with Suc.prems cs it have w2: "w2 = w'" by simp
    from iteration_break[OF it[unfolded Break]] w2 k
    have same: "device (controller w') = device (controller w)" "state (controller w') = state (controller w)"
      by simp_all
    from iteration_break[OF it[unfolded Break]] w2 k consider
        (exit) "trace w' = trace w" "error (controller w') = error (controller w)"
      | (fail) c e where "is_exec c" "e \<noteq> LIBMK_SUCCESS" "trace w' = trace w @ [(c, e)]"
          "error (controller w') = (if error (controller w) = LIBMK_SUCCESS then e else error (controller w))"
      by auto
    then show ?thesis
    proof cases
      case exit
      with same have "loop_effect w w' []" by (simp add: loop_effect_def)
      then show ?thesis ..
    next
      case fail
      have "loop_effect w w' ([] @ [(c, e)])"
        by (rule loop_effect_failI) (use same fail in simp_all)
      then show ?thesis ..
    qed
  next
    case (Continue w2)
    with Suc.prems cs it have rest: "run_loop R C tr n (tl sch) w2 = Some w'" by simp
    from Suc.IH[OF rest] obtain evs2 where e2: "loop_effect w2 w' evs2" by blast
    from iteration_continue[OF it[unfolded Continue]] k obtain evs1 where
      "device (controller w2) = device (controller w)" "state (controller w2) = state (controller w)"
      "error (controller w2) = error (controller w)" "trace w2 = trace w @ evs1"
      "\<forall>ev \<in> set evs1. \<not> exec_failure ev" by auto
    from loop_effect_after[OF this e2] show ?thesis by blast
  qed
qed

lemma disable_after_loop_eq:
  "disable_after_loop tr w =
     (let r = reply tr (trace w) (Disable_control (device (controller w)))
      in w\<lparr>trace := trace w @ [(Disable_control (device (controller w)), r)],
           controller := (if r \<noteq> LIBMK_SUCCESS then libmk_set_controller_error (controller w) r
                          else controller w)\<rparr>)"
  by (simp add: disable_after_loop_def transport_call_eq Let_def)

lemma disable_keeps_error:
  "error (controller w) \<noteq> LIBMK_SUCCESS \<Longrightarrow>
     error (controller (disable_after_loop tr w)) = error (controller w)"
  by (simp add: disable_after_loop_eq Let_def set_error_fields)

lemma run_loop_from_pass:
  "worker_at R C tr k sch w = Some wk \<Longrightarrow> run_iteration R C tr wk = Some (Break w') \<Longrightarrow> k < n
     \<Longrightarrow> run_loop R C tr n sch w = Some w'"
proof (induction k arbitrary: n sch w)
  case 0
  then obtain m where "n = Suc m" by (cases n) auto
  with 0 show ?case by simp
next
  case (Suc k)
  then obtain m where n: "n = Suc m" "k < m" by (cases n) auto
  from Suc.prems(1) obtain w1 w2 where
    1: "caller_steps (case sch of [] \<Rightarrow> [] | ops # _ \<Rightarrow> ops) w = Some w1"
    and 2: "run_iteration R C tr w1 = Some (Continue w2)"
    and 3: "worker_at R C tr k (tl sch) w2 = Some wk"
    by (auto split: option.splits loop_step.splits)
  from Suc.IH[OF 3 Suc.prems(2) n(2)] 1 2 n(1) show ?case by simp
qed

subsection \<open>Evaluation\<close>

lemmas worker_eval = libmk_run_controller_def run_iteration_def libmk_exec_instruction_def
     transport_call_eq uchar_loops_end_def libmk_free_instruction_def disable_after_loop_eq
     libmk_set_controller_error_def

subsection \<open>Fields that are never written\<close>

lemma start_keeps_state:
  "state (controller (snd (snd (libmk_start_controller tr w)))) = state (controller w)"
  by (simp add: libmk_start_controller_def transport_call_eq)

lemma run_keeps_state:
  assumes "libmk_run_controller R C tr n sch w = Some w'"
  shows "state (controller w') = state (controller w)"
proof -
  from assms obtain w1 where 1: "run_loop R C tr n sch w = Some w1" and 2: "w' = disable_after_loop tr w1"
    by (auto simp: libmk_run_controller_def)
  from run_loop_effect[OF 1] have "state (controller w1) = state (controller w)"
    by (auto simp: loop_effect_def)
  with 2 show ?thesis by (simp add: disable_after_loop_eq Let_def set_error_fields)
qed

lemma create_controller_fields:
  assumes "reply tr evs (Create_handle d) = LIBMK_SUCCESS"
  shows "fst (libmk_create_controller tr evs blk d m) = Some (blk\<lparr>device := new_handle tr evs d\<rparr>)"
  using assms by (simp add: libmk_create_controller_def Let_def)

lemma fill_sample: "fill_colors 7 24 sample_grid (replicate 504 0) = 9 # replicate 503 0"
  by code_simp

lemma sample_differs: "9 # replicate 503 0 \<noteq> sample_grid"
  by (simp add: sample_grid_def)

subsection \<open>Rounding to double precision\<close>














subsection \<open>Polling\<close>





lemma timeout_03_is_double: "to_double (3 / 10) = timeout_03"
  by (simp add: timeout_03_def) code_simp



text \<open>
  Beyond \<open>2 ^ 53\<close> ticks the conversion of the clock difference rounds as well: after
  17179869184000001 ticks the time computed is \<open>2 ^ 34\<close> seconds, which is not greater
  than a timeout of \<open>2 ^ 34\<close> seconds.
\<close>

lemma large_difference_is_rounded:
  "elapsed_since 0 17179869184000001 = 17179869184"
  "\<not> double_gt (Finite (elapsed_since 0 17179869184000001)) (Finite 17179869184)"
  "(17179869184::rat) < 17179869184000001 / 1000000"
  by code_simp+

section \<open>The claims\<close>

text \<open>
  C1. The claim: on every successful start the state field becomes Active, and whenever
  the worker loop exits it is set back to Inactive. No function of the file assigns the
  field (\<open>start_keeps_state\<close>, \<open>run_keeps_state\<close>), although
  \<^verbatim>\<open>libmk_get_controller_state\<close> is documented to tell whether the controller is
  running and \<^verbatim>\<open>libmk_free_controller\<close> and \<^verbatim>\<open>libmk_join_controller\<close> test it
  for \<^verbatim>\<open>LIBMK_STATE_ACTIVE\<close>. Evaluated: a successful start of an inactive controller
  leaves it inactive, and a worker that finds the exit flag set returns with the state
  still active.
\<close>

theorem state_never_written:
  "libmk_start_controller always_ok idle_world =
      (LIBMK_SUCCESS, True, idle_world\<lparr>trace := [(Enable_control 1, LIBMK_SUCCESS)]\<rparr>) \<and>
   libmk_get_controller_state
      (controller (idle_world\<lparr>trace := [(Enable_control 1, LIBMK_SUCCESS)]\<rparr>)) = LIBMK_STATE_INACTIVE \<and>
   libmk_run_controller 7 24 always_ok 1 [] stopping_world =
      Some (stopping_world\<lparr>trace := [(Disable_control 1, LIBMK_SUCCESS)]\<rparr>) \<and>
   libmk_get_controller_state
      (controller (stopping_world\<lparr>trace := [(Disable_control 1, LIBMK_SUCCESS)]\<rparr>)) = LIBMK_STATE_ACTIVE"
  by (simp add: libmk_start_controller_def transport_call_eq always_ok_def idle_world_def
        idle_controller_def libmk_get_controller_state_def libmk_run_controller_def
        run_iteration_def stopping_world_def disable_after_loop_eq)

text \<open>
  C2. The claim: when the transport opens the device, create returns a controller that is
  inactive, with an empty queue, no error and the exit flag down. The function sets the
  handle and the mutexes only, so these four fields are whatever \<^verbatim>\<open>malloc\<close> left in
  the block, while the worker loop and \<^verbatim>\<open>libmk_set_controller_error\<close> read them
  without an earlier write. Evaluated on a block that holds old data: the controller
  returned is active, has a queue pointer, an error and the exit flag up.
\<close>

theorem create_controller_keeps_block:
  "libmk_create_controller always_ok [] junk_controller 1 0 =
     (Some (junk_controller\<lparr>device := 1\<rparr>), [(Create_handle 1, LIBMK_SUCCESS)]) \<and>
   state (junk_controller\<lparr>device := 1\<rparr>) = LIBMK_STATE_ACTIVE \<and>
   instr (junk_controller\<lparr>device := 1\<rparr>) = Some 7 \<and>
   error (junk_controller\<lparr>device := 1\<rparr>) = LIBMK_ERR 3 \<and>
   exit_flag (junk_controller\<lparr>device := 1\<rparr>)"
  by (simp add: libmk_create_controller_def always_ok_def junk_controller_def)

text \<open>
  C3. The claim: creating a per-key instruction stores a faithful copy of the grid, and
  executing it hands each key's color to the transport. The copy loop writes
  \<^verbatim>\<open>c[row][col][j]\<close> to index \<^verbatim>\<open>row * LIBMK_MAX_COLS + j\<close>, not to
  \<^verbatim>\<open>(row * LIBMK_MAX_COLS + col) * 3 + j\<close>. Evaluated on \<open>sample_grid\<close> with a zeroed
  buffer: the payload starts with the 9 of the key in column 23, the 1 of the first key is
  lost, and this payload is what the transport receives.
\<close>

theorem full_grid_not_copied:
  "libmk_create_instruction_all 7 24 blank_instruction (replicate 504 0) sample_grid =
      Some (blank_instruction\<lparr>colors := Some (9 # replicate 503 0)\<rparr>) \<and>
   length sample_grid = 7 * 24 * 3 \<and>
   9 # replicate 503 0 \<noteq> sample_grid \<and>
   libmk_exec_instruction 7 24 always_ok 1 (Some 10)
      \<lparr>controller = idle_controller,
        heap = [10 \<mapsto> blank_instruction\<lparr>colors := Some (9 # replicate 503 0)\<rparr>], trace = []\<rparr> =
      Some (LIBMK_SUCCESS,
            \<lparr>controller = idle_controller,
              heap = [10 \<mapsto> blank_instruction\<lparr>colors := Some (9 # replicate 503 0)\<rparr>],
              trace = [(Set_all_led_color 1 (9 # replicate 503 0), LIBMK_SUCCESS)]\<rparr>)"
  using fill_sample sample_differs
  by (simp add: libmk_create_instruction_all_def libmk_create_instruction_def uchar_loops_end_def
        blank_instruction_def libmk_exec_instruction_def transport_call_eq always_ok_def sample_grid_def)

text \<open>
  C4, as stated: when the transport cannot open the device, create returns the
  transport's error code. The function returns a controller pointer, and it returns the
  same \<^verbatim>\<open>NULL\<close> for two different error codes of the transport.
\<close>

theorem create_controller_error_code_lost:
  "fst (libmk_create_controller (open_fails (LIBMK_ERR 1)) [] junk_controller 1 0) =
   fst (libmk_create_controller (open_fails (LIBMK_ERR 2)) [] junk_controller 1 0) \<and>
   reply (open_fails (LIBMK_ERR 1)) [] (Create_handle 1) \<noteq> reply (open_fails (LIBMK_ERR 2)) [] (Create_handle 1)"
  by (simp add: libmk_create_controller_def open_fails_def)

text \<open>
  C4, amended: whenever the transport cannot open the device, create returns
  \<^verbatim>\<open>NULL\<close> whatever the error code is, after the one call to the transport, and the
  block \<open>blk\<close> of a controller is not part of the result.
\<close>

theorem create_controller_open_failure:
  assumes "reply tr evs (Create_handle d) \<noteq> LIBMK_SUCCESS"
  shows "libmk_create_controller tr evs blk d m =
           (None, evs @ [(Create_handle d, reply tr evs (Create_handle d))])"
  using assms by (simp add: libmk_create_controller_def Let_def)

text \<open>C4, on a transport that fails to open the device with the code 1.\<close>

theorem create_controller_open_failure_witness:
  "reply (open_fails (LIBMK_ERR 1)) [] (Create_handle 1) \<noteq> LIBMK_SUCCESS \<and>
   libmk_create_controller (open_fails (LIBMK_ERR 1)) [] junk_controller 1 0 =
     (None, [(Create_handle 1, LIBMK_ERR 1)])"
proof -
  have h: "reply (open_fails (LIBMK_ERR 1)) [] (Create_handle 1) \<noteq> LIBMK_SUCCESS"
    by (simp add: open_fails_def)
  from create_controller_open_failure[OF h, of junk_controller 0] h show ?thesis
    by (simp add: open_fails_def)
qed

text \<open>
  C5. The error slot is written only while it holds no error: in every run of the worker
  that starts with a free slot and in which the execution of an instruction fails with
  \<open>e\<close>, the controller's error after the run is \<open>e\<close>, whatever the transport answers
  when control is handed back, and setting any further error \<open>x\<close> changes nothing.
\<close>

theorem first_error_is_kept:
  assumes run: "libmk_run_controller R C tr n sch w = Some w'"
      and start: "error (controller w) = LIBMK_SUCCESS"
      and evs: "trace w' = trace w @ evs"
      and fail: "(c, e) \<in> set evs" "is_exec c" "e \<noteq> LIBMK_SUCCESS"
  shows "libmk_get_controller_error (controller w') = e \<and>
         libmk_set_controller_error (controller w') x = controller w'"
proof -
  from run obtain w1 where 1: "run_loop R C tr n sch w = Some w1" and 2: "w' = disable_after_loop tr w1"
    by (auto simp: libmk_run_controller_def)
  from run_loop_effect[OF 1] obtain evs1 where eff: "loop_effect w w1 evs1" by blast
  then have tr1: "trace w1 = trace w @ evs1" by (simp add: loop_effect_def)
  define d where "d = (Disable_control (device (controller w1)), reply tr (trace w1) (Disable_control (device (controller w1))))"
  from 2 have "trace w' = trace w1 @ [d]" by (simp add: disable_after_loop_eq Let_def d_def)
  with tr1 evs have "evs = evs1 @ [d]" by simp
  moreover have "\<not> is_exec (fst d)" by (simp add: d_def is_exec_simps)
  ultimately have in1: "(c, e) \<in> set evs1" using fail(1,2) by auto
  have bad: "exec_failure (c, e)" using fail(2,3) by (simp add: exec_failure_def)
  from eff in1 bad obtain pre c' e' where p: "evs1 = pre @ [(c', e')]" "\<forall>ev \<in> set pre. \<not> exec_failure ev"
      "error (controller w1) = (if error (controller w) = LIBMK_SUCCESS then e' else error (controller w))"
    unfolding loop_effect_def by blast
  from in1 p(1,2) bad have "(c, e) = (c', e')" by auto
  with p(3) start have "error (controller w1) = e" by simp
  with fail(3) 2 have err: "error (controller w') = e" by (simp add: disable_keeps_error)
  with fail(3) show ?thesis
    by (simp add: libmk_get_controller_error_def libmk_set_controller_error_def)
qed

text \<open>
  C5, on a run whose second instruction fails with the code 5 and whose hand-back of
  control fails with the code 6: the error kept is 5.
\<close>

theorem first_error_is_kept_witness:
  "libmk_run_controller 7 24 (fails_after 1 (LIBMK_ERR 5) (LIBMK_ERR 6)) 2 [] two_queued = Some after_failed_run \<and>
   error (controller two_queued) = LIBMK_SUCCESS \<and>
   trace after_failed_run = trace two_queued @ trace after_failed_run \<and>
   (Set_all_led_color 1 [1, 2, 3], LIBMK_ERR 5) \<in> set (trace after_failed_run) \<and>
   (Disable_control 1, LIBMK_ERR 6) \<in> set (trace after_failed_run) \<and>
   libmk_get_controller_error (controller after_failed_run) = LIBMK_ERR 5 \<and>
   libmk_set_controller_error (controller after_failed_run) (LIBMK_ERR 6) = controller after_failed_run"
proof -
  have run: "libmk_run_controller 7 24 (fails_after 1 (LIBMK_ERR 5) (LIBMK_ERR 6)) 2 [] two_queued = Some after_failed_run"
    by (simp add: worker_eval two_queued_def idle_controller_def blank_instruction_def fails_after_def after_failed_run_def numeral_2_eq_2)
  have start: "error (controller two_queued) = LIBMK_SUCCESS"
    by (simp add: two_queued_def idle_controller_def)
  have evs: "trace after_failed_run = trace two_queued @ trace after_failed_run"
    by (simp add: two_queued_def)
  have fail: "(Set_all_led_color 1 [1, 2, 3], LIBMK_ERR 5) \<in> set (trace after_failed_run)"
    by (simp add: after_failed_run_def)
  have dis: "(Disable_control 1, LIBMK_ERR 6) \<in> set (trace after_failed_run)"
    by (simp add: after_failed_run_def)
  have ex: "is_exec (Set_all_led_color 1 [1, 2, 3])" by (simp add: is_exec_def)
  have ne: "LIBMK_ERR 5 \<noteq> LIBMK_SUCCESS" by simp
  from first_error_is_kept[OF run start evs fail ex ne, of "LIBMK_ERR 6"] run start evs fail dis
  show ?thesis by simp
qed

text \<open>
  C6, as stated: after a failed execution \<^verbatim>\<open>libmk_get_controller_error\<close> returns that
  failure. A controller that still holds the error 9 of an earlier run executes an
  instruction that fails with the code 5: the run leaves the controller as it was, and
  its error is 9.
\<close>

theorem earlier_error_hides_failure:
  "libmk_run_controller 7 24 (fails_after 0 (LIBMK_ERR 5) LIBMK_SUCCESS) 1 [] errored_world =
     Some (errored_world\<lparr>trace := [(Set_all_led_color 1 [1, 2, 3], LIBMK_ERR 5),
                                     (Disable_control 1, LIBMK_SUCCESS)]\<rparr>) \<and>
   libmk_get_controller_error
     (controller (errored_world\<lparr>trace := [(Set_all_led_color 1 [1, 2, 3], LIBMK_ERR 5),
                                                (Disable_control 1, LIBMK_SUCCESS)]\<rparr>)) = LIBMK_ERR 9 \<and>
   LIBMK_ERR 9 \<noteq> LIBMK_ERR 5"
  by (simp add: worker_eval errored_world_def idle_controller_def blank_instruction_def
        fails_after_def libmk_get_controller_error_def)

text \<open>
  C6, amended. Let the worker start a pass of its loop in \<open>wk\<close>, with the exit flag down
  and the instruction \<open>a\<close> at the head of the queue, and let the transport fail the
  execution of \<open>a\<close> with \<open>e\<close>. Then the run returns as soon as the loop is given more
  than \<open>k\<close> passes; after the failed call the transport is only asked to hand control
  back, so no instruction is executed after \<open>a\<close> and \<open>a\<close> is not tried again; the queue
  and its instructions are as they were, \<open>a\<close> still at the head; and the error the
  controller reports is \<open>e\<close> when no error was recorded before, the earlier error
  otherwise.
\<close>

theorem exec_failure_stops_worker:
  assumes at: "worker_at R C tr k sch w = Some wk"
      and flag: "\<not> exit_flag (controller wk)"
      and head: "instr (controller wk) = Some a"
      and ex: "libmk_exec_instruction R C tr (device (controller wk)) (Some a) wk = Some (e, w1)"
      and e: "e \<noteq> LIBMK_SUCCESS"
      and fuel: "k < n"
  shows "\<exists>w' c r. libmk_run_controller R C tr n sch w = Some w' \<and> is_exec c \<and>
            trace w' = trace wk @ [(c, e), (Disable_control (device (controller wk)), r)] \<and>
            heap w' = heap wk \<and> instr (controller w') = Some a \<and>
            libmk_get_controller_error (controller w') =
              (if error (controller wk) = LIBMK_SUCCESS then e else error (controller wk))"
proof -
  define w2 where "w2 = w1\<lparr>controller := libmk_set_controller_error (controller w1) e\<rparr>"
  from flag head ex e have it: "run_iteration R C tr wk = Some (Break w2)"
    by (simp add: run_iteration_def w2_def)
  from exec_result[OF ex] obtain c where c: "is_exec c" "w1 = wk\<lparr>trace := trace wk @ [(c, e)]\<rparr>" by blast
  from run_loop_from_pass[OF at it fuel]
  have run: "libmk_run_controller R C tr n sch w = Some (disable_after_loop tr w2)"
    by (simp add: libmk_run_controller_def)
  define r where "r = reply tr (trace w2) (Disable_control (device (controller w2)))"
  have f: "trace (disable_after_loop tr w2) = trace wk @ [(c, e), (Disable_control (device (controller wk)), r)]"
    "heap (disable_after_loop tr w2) = heap wk"
    "instr (controller (disable_after_loop tr w2)) = Some a"
    "error (controller (disable_after_loop tr w2)) =
        (if error (controller wk) = LIBMK_SUCCESS then e else error (controller wk))"
    using c(2) head e
    by (simp_all add: disable_after_loop_eq Let_def w2_def r_def set_error_fields)
  from run c(1) f show ?thesis
    unfolding libmk_get_controller_error_def by blast
qed

text \<open>
  C6, on the queue of two instructions with a transport that executes the first and fails
  the second with the code 5.
\<close>

theorem exec_failure_stops_worker_witness:
  "worker_at 7 24 (fails_after 1 (LIBMK_ERR 5) (LIBMK_ERR 6)) 1 [] two_queued = Some before_failure \<and>
   \<not> exit_flag (controller before_failure) \<and>
   instr (controller before_failure) = Some 20 \<and>
   libmk_exec_instruction 7 24 (fails_after 1 (LIBMK_ERR 5) (LIBMK_ERR 6)) (device (controller before_failure))
       (Some 20) before_failure =
     Some (LIBMK_ERR 5, before_failure\<lparr>trace := trace before_failure @ [(Set_all_led_color 1 [1, 2, 3], LIBMK_ERR 5)]\<rparr>) \<and>
   (\<exists>w' c r. libmk_run_controller 7 24 (fails_after 1 (LIBMK_ERR 5) (LIBMK_ERR 6)) 2 [] two_queued = Some w' \<and>
       trace w' = trace before_failure @ [(c, LIBMK_ERR 5), (Disable_control 1, r)] \<and>
       heap w' = heap before_failure \<and> instr (controller w') = Some 20 \<and>
       libmk_get_controller_error (controller w') = LIBMK_ERR 5)"
proof -
  let ?tr = "fails_after 1 (LIBMK_ERR 5) (LIBMK_ERR 6)"
  have at: "worker_at 7 24 ?tr 1 [] two_queued = Some before_failure"
    by (simp add: worker_eval two_queued_def idle_controller_def blank_instruction_def fails_after_def before_failure_def)
  have flag: "\<not> exit_flag (controller before_failure)"
    by (simp add: before_failure_def idle_controller_def)
  have head: "instr (controller before_failure) = Some 20"
    by (simp add: before_failure_def)
  have ex: "libmk_exec_instruction 7 24 ?tr (device (controller before_failure)) (Some 20) before_failure =
     Some (LIBMK_ERR 5, before_failure\<lparr>trace := trace before_failure @ [(Set_all_led_color 1 [1, 2, 3], LIBMK_ERR 5)]\<rparr>)"
    by (simp add: worker_eval two_queued_def idle_controller_def blank_instruction_def fails_after_def before_failure_def)
  have e: "LIBMK_ERR 5 \<noteq> LIBMK_SUCCESS" by simp
  have fuel: "(1::nat) < 2" by simp
  have dev: "device (controller before_failure) = 1" and err: "error (controller before_failure) = LIBMK_SUCCESS"
    by (simp_all add: before_failure_def idle_controller_def)
  from exec_failure_stops_worker[OF at flag head ex e fuel]
  have main: "\<exists>w' c r. libmk_run_controller 7 24 ?tr 2 [] two_queued = Some w' \<and>
       trace w' = trace before_failure @ [(c, LIBMK_ERR 5), (Disable_control 1, r)] \<and>
       heap w' = heap before_failure \<and> instr (controller w') = Some 20 \<and>
       libmk_get_controller_error (controller w') = LIBMK_ERR 5"
    unfolding dev err by auto
  show ?thesis
    by (intro conjI) (fact at, fact flag, fact head, fact ex, fact main)
qed

text \<open>
  C7. For every well-formed queue \<open>as\<close> and every allocated instruction \<open>i\<close>, enqueue
  returns \<^verbatim>\<open>LIBMK_SUCCESS\<close>. On the empty queue \<open>i\<close> becomes the head and gets the id
  1; otherwise the head stays, the \<^verbatim>\<open>next\<close> link of the tail points to \<open>i\<close>, and the
  id of \<open>i\<close> is the id that the tail has at that moment plus 1 (in 32-bit unsigned
  arithmetic), whichever ids were cancelled before. When \<open>i\<close> is not queued already and
  its own link is \<^verbatim>\<open>NULL\<close>, the queue afterwards is \<open>as @ [i]\<close> and no other id has
  changed.
\<close>

theorem sched_instruction_appends:
  assumes q: "queue (heap w) (instr (controller w)) as" and i: "heap w i = Some n"
  shows "\<exists>h'. libmk_sched_instruction w i =
            Some (LIBMK_SUCCESS,
                  w\<lparr>controller := (controller w)\<lparr>instr := (if as = [] then Some i else instr (controller w))\<rparr>,
                    heap := h'\<rparr>) \<and>
      (as = [] \<longrightarrow> id_of h' i = 1) \<and>
      (as \<noteq> [] \<longrightarrow> next_of h' (last as) = Some i \<and> id_of h' i = id_of (heap w) (last as) + 1) \<and>
      (i \<notin> set as \<and> instr_next n = None \<longrightarrow>
         queue h' (if as = [] then Some i else instr (controller w)) (as @ [i]) \<and>
         (\<forall>a. a \<noteq> i \<longrightarrow> id_of h' a = id_of (heap w) a))"
proof (cases "as = []")
  case True
  with q have "instr (controller w) = None" by simp
  with True i show ?thesis
    by (intro exI[of _ "(heap w)(i \<mapsto> n\<lparr>instr_id := 1\<rparr>)"])
       (simp add: libmk_sched_instruction_def id_of_def)
next
  case False
  then obtain t ts where as: "as = t # ts" by (cases as) auto
  with q have head: "instr (controller w) = Some t" by simp
  from q False obtain tn where tn: "heap w (last as) = Some tn" "instr_next tn = None"
    using queue_last by blast
  from q head have walk: "sched_walk (heap w) t i = link_tail (heap w) (last as) i"
    using sched_walk_tail by simp
  define h1 where "h1 = (heap w)(last as \<mapsto> tn\<lparr>instr_next := Some i\<rparr>)"
  define ni where "ni = (if i = last as then tn\<lparr>instr_next := Some i\<rparr> else n)"
  define h' where "h' = h1(i \<mapsto> ni\<lparr>instr_id := instr_id tn + 1\<rparr>)"
  have link: "link_tail (heap w) (last as) i = Some h'"
    using tn i by (simp add: link_tail_def h'_def h1_def ni_def)
  have res: "libmk_sched_instruction w i = Some (LIBMK_SUCCESS, w\<lparr>heap := h'\<rparr>)"
    using head walk link by (simp add: libmk_sched_instruction_def)
  have nx: "next_of h' (last as) = Some i"
    by (simp add: next_of_def h'_def h1_def ni_def)
  have idi: "id_of h' i = id_of (heap w) (last as) + 1"
    using tn by (simp add: id_of_def h'_def)
  have fresh: "queue h' (instr (controller w)) (as @ [i]) \<and> (\<forall>a. a \<noteq> i \<longrightarrow> id_of h' a = id_of (heap w) a)"
    if f: "i \<notin> set as" "instr_next n = None"
  proof
    from f False have "i \<noteq> last as" using last_in_set by metis
    then have "ni = n" by (simp add: ni_def)
    with f have "instr_next (ni\<lparr>instr_id := instr_id tn + 1\<rparr>) = None" by simp
    from queue_snoc[OF q False f(1) tn(1) this]
    show "queue h' (instr (controller w)) (as @ [i])" by (simp add: h'_def h1_def)
    show "\<forall>a. a \<noteq> i \<longrightarrow> id_of h' a = id_of (heap w) a"
      using tn by (simp add: id_of_def h'_def h1_def)
  qed
  have eq: "w\<lparr>heap := h'\<rparr> = w\<lparr>controller := (controller w)\<lparr>instr := instr (controller w)\<rparr>, heap := h'\<rparr>"
    by simp
  have res': "libmk_sched_instruction w i =
      Some (LIBMK_SUCCESS, w\<lparr>controller := (controller w)\<lparr>instr := instr (controller w)\<rparr>, heap := h'\<rparr>)"
    unfolding eq[symmetric] by (rule res)
  show ?thesis
    by (rule exI[of _ h']) (use False res' nx idi fresh in \<open>simp only: if_False simp_thms; blast\<close>)
qed

text \<open>C7, on the queue of two instructions: the third one is appended with the id 3.\<close>

theorem sched_instruction_appends_witness:
  "queue (heap two_queued) (instr (controller two_queued)) [10, 20] \<and>
   heap two_queued 30 = Some blank_instruction \<and>
   (\<exists>h'. libmk_sched_instruction two_queued 30 =
            Some (LIBMK_SUCCESS, two_queued\<lparr>controller := (controller two_queued)\<lparr>instr := Some 10\<rparr>, heap := h'\<rparr>) \<and>
          next_of h' 20 = Some 30 \<and> id_of h' 30 = 3 \<and> queue h' (Some 10) [10, 20, 30])"
proof -
  have q: "queue (heap two_queued) (instr (controller two_queued)) [10, 20]"
    by (simp add: two_queued_def blank_instruction_def)
  have i: "heap two_queued 30 = Some blank_instruction"
    by (simp add: two_queued_def)
  have facts: "instr (controller two_queued) = Some 10" "id_of (heap two_queued) 20 = 2"
     "instr_next blank_instruction = None"
    by (simp_all add: two_queued_def blank_instruction_def id_of_def)
  from sched_instruction_appends[OF q i]
  have main: "\<exists>h'. libmk_sched_instruction two_queued 30 =
            Some (LIBMK_SUCCESS, two_queued\<lparr>controller := (controller two_queued)\<lparr>instr := Some 10\<rparr>, heap := h'\<rparr>) \<and>
          next_of h' 20 = Some 30 \<and> id_of h' 30 = 3 \<and> queue h' (Some 10) [10, 20, 30]"
    by (auto simp: facts)
  show ?thesis
    by (intro conjI) (fact q, fact i, fact main)
qed




text \<open>
  C9. For every well-formed queue \<open>as\<close>, cancel returns \<^verbatim>\<open>LIBMK_SUCCESS\<close> and changes
  at most the head pointer and the instructions. When no queued instruction has the id,
  nothing changes. When \<open>a\<close> is the first queued instruction with the id, it is spliced
  out and freed as \<open>spliced_out\<close> says.
\<close>

theorem cancel_instruction_splices:
  assumes q: "queue (heap w) (instr (controller w)) as"
  shows "\<exists>head' h'. libmk_cancel_instruction w ident =
            Some (LIBMK_SUCCESS, w\<lparr>controller := (controller w)\<lparr>instr := head'\<rparr>, heap := h'\<rparr>) \<and>
      (ident \<notin> id_of (heap w) ` set as \<longrightarrow> head' = instr (controller w) \<and> h' = heap w) \<and>
      (\<forall>xs a ys. as = xs @ a # ys \<and> ident \<notin> id_of (heap w) ` set xs \<and> id_of (heap w) a = ident \<longrightarrow>
         spliced_out (heap w) (instr (controller w)) h' head' xs a ys)"
proof (cases "ident \<in> id_of (heap w) ` set as")
  case False
  with q have "cancel_scan (instr (controller w)) (heap w) None (instr (controller w)) ident
                 = Some (instr (controller w), heap w)"
    by (rule cancel_scan_absent)
  then have res: "libmk_cancel_instruction w ident =
      Some (LIBMK_SUCCESS, w\<lparr>controller := (controller w)\<lparr>instr := instr (controller w)\<rparr>, heap := heap w\<rparr>)"
    by (simp add: libmk_cancel_instruction_def)
  have none: "\<forall>xs a ys. as = xs @ a # ys \<and> ident \<notin> id_of (heap w) ` set xs \<and> id_of (heap w) a = ident \<longrightarrow>
         spliced_out (heap w) (instr (controller w)) (heap w) (instr (controller w)) xs a ys"
    using False by auto
  show ?thesis
    by (rule exI[of _ "instr (controller w)"], rule exI[of _ "heap w"]) (intro conjI impI res refl none)
next
  case True
  then have "\<exists>a \<in> set as. id_of (heap w) a = ident" by auto
  then obtain xs a ys where split: "as = xs @ a # ys" "id_of (heap w) a = ident"
      "\<forall>b \<in> set xs. id_of (heap w) b \<noteq> ident"
    using split_list_first_prop[of as "\<lambda>a. id_of (heap w) a = ident"] by blast
  then have xs: "ident \<notin> id_of (heap w) ` set xs" by auto
  from q split(1) obtain n where n: "heap w a = Some n"
    using queue_allocated[of "heap w" _ as a] by auto
  with split(2) have idn: "instr_id n = ident" by (simp add: id_of_def)
  from q split(1) have q': "queue (heap w) (instr (controller w)) (xs @ a # ys)" by simp
  have uniq: "xs' = xs \<and> a' = a \<and> ys' = ys"
    if "as = xs' @ a' # ys' \<and> ident \<notin> id_of (heap w) ` set xs' \<and> id_of (heap w) a' = ident"
    for xs' a' ys'
  proof (rule first_split_unique[of xs a ys xs' a' ys' "\<lambda>b. id_of (heap w) b = ident"])
    show "xs @ a # ys = xs' @ a' # ys'" using that split(1) by simp
    show "id_of (heap w) a = ident" by (rule split(2))
    show "id_of (heap w) a' = ident" using that by simp
    show "\<forall>b\<in>set xs. id_of (heap w) b \<noteq> ident" by (rule split(3))
    show "\<forall>b\<in>set xs'. id_of (heap w) b \<noteq> ident" using that by blast
  qed
  have "\<exists>head' h'. libmk_cancel_instruction w ident =
            Some (LIBMK_SUCCESS, w\<lparr>controller := (controller w)\<lparr>instr := head'\<rparr>, heap := h'\<rparr>) \<and>
          spliced_out (heap w) (instr (controller w)) h' head' xs a ys"
  proof (cases "xs = []")
    case True
    with q' have "queue (heap w) (instr (controller w)) (a # ys)" by simp
    from cancel_found_head[OF this n idn] True show ?thesis by blast
  next
    case False
    from cancel_found_inner[OF q' n idn xs False] show ?thesis by blast
  qed
  then obtain head' h' where res: "libmk_cancel_instruction w ident =
            Some (LIBMK_SUCCESS, w\<lparr>controller := (controller w)\<lparr>instr := head'\<rparr>, heap := h'\<rparr>)"
     and sp: "spliced_out (heap w) (instr (controller w)) h' head' xs a ys" by blast
  have found: "\<forall>xs' a' ys'. as = xs' @ a' # ys' \<and> ident \<notin> id_of (heap w) ` set xs' \<and> id_of (heap w) a' = ident \<longrightarrow>
         spliced_out (heap w) (instr (controller w)) h' head' xs' a' ys'"
  proof (intro allI impI)
    fix xs' a' ys'
    assume "as = xs' @ a' # ys' \<and> ident \<notin> id_of (heap w) ` set xs' \<and> id_of (heap w) a' = ident"
    then have "xs' = xs \<and> a' = a \<and> ys' = ys" by (rule uniq)
    with sp show "spliced_out (heap w) (instr (controller w)) h' head' xs' a' ys'" by simp
  qed
  have absent: "ident \<notin> id_of (heap w) ` set as \<longrightarrow> head' = instr (controller w) \<and> h' = heap w"
    using True by simp
  show ?thesis
    by (rule exI[of _ head'], rule exI[of _ h']) (intro conjI res absent found)
qed

text \<open>
  C9, on the queue of two instructions: cancelling the id 2 splices the second
  instruction out, cancelling the id 7 changes nothing.
\<close>

theorem cancel_instruction_splices_witness:
  "queue (heap two_queued) (instr (controller two_queued)) [10, 20] \<and>
   (\<exists>head' h'. libmk_cancel_instruction two_queued 2 =
        Some (LIBMK_SUCCESS, two_queued\<lparr>controller := (controller two_queued)\<lparr>instr := head'\<rparr>, heap := h'\<rparr>) \<and>
      spliced_out (heap two_queued) (instr (controller two_queued)) h' head' [10] 20 []) \<and>
   (\<exists>head' h'. libmk_cancel_instruction two_queued 7 =
        Some (LIBMK_SUCCESS, two_queued\<lparr>controller := (controller two_queued)\<lparr>instr := head'\<rparr>, heap := h'\<rparr>) \<and>
      head' = instr (controller two_queued) \<and> h' = heap two_queued)"
proof -
  have q: "queue (heap two_queued) (instr (controller two_queued)) [10, 20]"
    by (simp add: two_queued_def blank_instruction_def)
  have ids: "id_of (heap two_queued) 10 = 1" "id_of (heap two_queued) 20 = 2"
    by (simp_all add: two_queued_def blank_instruction_def id_of_def)
  have present: "[10, 20] = [10] @ 20 # [] \<and> (2::32 word) \<notin> id_of (heap two_queued) ` set [10] \<and>
      id_of (heap two_queued) 20 = 2"
    by (simp add: ids)
  have absent: "(7::32 word) \<notin> id_of (heap two_queued) ` set [10, 20]"
    by (simp add: ids)
  from cancel_instruction_splices[OF q, of 2] present
  have 1: "\<exists>head' h'. libmk_cancel_instruction two_queued 2 =
        Some (LIBMK_SUCCESS, two_queued\<lparr>controller := (controller two_queued)\<lparr>instr := head'\<rparr>, heap := h'\<rparr>) \<and>
      spliced_out (heap two_queued) (instr (controller two_queued)) h' head' [10] 20 []"
    by blast
  from cancel_instruction_splices[OF q, of 7] absent
  have 2: "\<exists>head' h'. libmk_cancel_instruction two_queued 7 =
        Some (LIBMK_SUCCESS, two_queued\<lparr>controller := (controller two_queued)\<lparr>instr := head'\<rparr>, heap := h'\<rparr>) \<and>
      head' = instr (controller two_queued) \<and> h' = heap two_queued"
    by blast
  from q 1 2 show ?thesis by blast
qed

text \<open>
  C10, as stated: when the state is not active at the call, join never reports
  \<^verbatim>\<open>LIBMK_STATE_JOIN_ERR\<close>. The state field is an ordinary field of the enumeration
  type; when it holds \<^verbatim>\<open>LIBMK_STATE_JOIN_ERR\<close>, which is not the active state, join
  returns that value at once. \<^verbatim>\<open>libmk_create_controller\<close> returns such a controller
  when the block it is given holds that value.
\<close>

theorem join_reports_stored_join_err:
  "state join_err_controller \<noteq> LIBMK_STATE_ACTIVE \<and>
   libmk_join_controller 0 [(join_err_controller, 0)] (Finite 5) =
     Some (LIBMK_STATE_JOIN_ERR, join_err_controller) \<and>
   fst (libmk_create_controller always_ok [] join_err_controller 1 0) = Some join_err_controller"
  by (simp add: libmk_join_controller_def join_err_controller_def idle_controller_def
        libmk_create_controller_def always_ok_def)

text \<open>
  C10, amended. When the state is not active at the first poll, join returns that state
  at once, for every timeout (zero, negative, infinite or not a number) and every clock
  value: the time is not looked at. The value returned is \<^verbatim>\<open>LIBMK_STATE_JOIN_ERR\<close>
  exactly when that is what the state field holds.
\<close>

theorem join_checks_state_first:
  assumes "state c \<noteq> LIBMK_STATE_ACTIVE"
  shows "libmk_join_controller t ((c, now) # polls) timeout = Some (state c, c) \<and>
         (map_option fst (libmk_join_controller t ((c, now) # polls) timeout) =
            Some LIBMK_STATE_JOIN_ERR \<longleftrightarrow> state c = LIBMK_STATE_JOIN_ERR)"
  using assms by (simp add: libmk_join_controller_def)

text \<open>
  C10, for an inactive controller five seconds after the call, with the timeouts 0, -1
  and not a number.
\<close>

theorem join_checks_state_first_witness:
  "state idle_controller \<noteq> LIBMK_STATE_ACTIVE \<and>
   libmk_join_controller 1000 [(idle_controller, 5001000)] (Finite 0) =
     Some (LIBMK_STATE_INACTIVE, idle_controller) \<and>
   libmk_join_controller 1000 [(idle_controller, 5001000)] (Finite (- 1)) =
     Some (LIBMK_STATE_INACTIVE, idle_controller) \<and>
   libmk_join_controller 1000 [(idle_controller, 5001000)] Not_a_number =
     Some (LIBMK_STATE_INACTIVE, idle_controller)"
proof -
  have h: "state idle_controller \<noteq> LIBMK_STATE_ACTIVE" by (simp add: idle_controller_def)
  have s: "state idle_controller = LIBMK_STATE_INACTIVE" by (simp add: idle_controller_def)
  from join_checks_state_first[OF h, of 1000 5001000 "[]" "Finite 0"]
       join_checks_state_first[OF h, of 1000 5001000 "[]" "Finite (- 1)"]
       join_checks_state_first[OF h, of 1000 5001000 "[]" Not_a_number] h s
  show ?thesis by simp
qed

end
